theory Spec2Isabelle
  imports Main "HOL-Library.Sublist"
begin

section \<open>Strings and values of the JavaScript runtime\<close>

text \<open>
  A string is a list of characters. \<open>toLowerCase\<close> maps the letters \<open>A\<close> to \<open>Z\<close> to
  \<open>a\<close> to \<open>z\<close> and leaves every other character as it is (the ASCII part of
  \<^verbatim>\<open>String.prototype.toLowerCase\<close>). \<open>startsWith\<close> and \<open>str_includes\<close> are
  \<^verbatim>\<open>String.prototype.startsWith\<close> and \<^verbatim>\<open>String.prototype.includes\<close> (a prefix test
  and a test for a contiguous substring); \<open>show_nat\<close> is the decimal text a template
  literal gives a count.
\<close>

definition toLowerCaseChar :: "char \<Rightarrow> char" where
  "toLowerCaseChar c =
     (case map_of (zip ''ABCDEFGHIJKLMNOPQRSTUVWXYZ'' ''abcdefghijklmnopqrstuvwxyz'') c of
        None \<Rightarrow> c
      | Some l \<Rightarrow> l)"

definition toLowerCase :: "string \<Rightarrow> string" where
  "toLowerCase s = map toLowerCaseChar s"

fun startsWith :: "string \<Rightarrow> string \<Rightarrow> bool" where
  "startsWith s [] = True"
| "startsWith [] (p # ps) = False"
| "startsWith (c # cs) (p # ps) = (c = p \<and> startsWith cs ps)"

fun str_includes :: "string \<Rightarrow> string \<Rightarrow> bool" where
  "str_includes [] sub = (sub = [])"
| "str_includes (c # cs) sub = (startsWith (c # cs) sub \<or> str_includes cs sub)"

fun show_nat :: "nat \<Rightarrow> string" where
  "show_nat n =
     (if n < 10 then [''0123456789'' ! n]
      else show_nat (n div 10) @ [''0123456789'' ! (n mod 10)])"

declare show_nat.simps [simp del]

text \<open>
  An object is its property map: \<open>obj k = None\<close> where reading the property \<open>k\<close> gives
  \<^verbatim>\<open>undefined\<close>. The values are opaque (\<open>'v\<close>). Objects are held by reference: a \<open>ref\<close>
  is the identity of an object, and the world maps every reference to the object's
  properties, so that two names may hold one and the same object.
  \<^verbatim>\<open>slice(start, stop)\<close> of an array, for \<open>start \<le> stop\<close>, stops at the end of the array.
\<close>

type_synonym 'v obj = "string \<rightharpoonup> 'v"

type_synonym ref = nat

definition slice :: "'a list \<Rightarrow> nat \<Rightarrow> nat \<Rightarrow> 'a list" where
  "slice xs start stop = take (stop - start) (drop start xs)"

text \<open>
  What a rejected promise or a \<^verbatim>\<open>throw\<close> carries: a value with a message (an \<^verbatim>\<open>Error\<close>;
  a value of another kind, whose \<^verbatim>\<open>message\<close> reads \<^verbatim>\<open>undefined\<close>, is the one with the
  message \<open>undefined\<close>), or \<^verbatim>\<open>undefined\<close>, or \<^verbatim>\<open>null\<close>. A function that can throw, or an
  \<^verbatim>\<open>async\<close> function, returns \<open>JsError + 'a\<close>: \<open>Inl\<close> is the throw or the rejection.
  \<open>read_message\<close> is \<^verbatim>\<open>(error as Error).message\<close>: of \<^verbatim>\<open>undefined\<close> and of \<^verbatim>\<open>null\<close>
  the read itself throws a \<^verbatim>\<open>TypeError\<close> (with the message V8 gives it).
\<close>

datatype JsError = JsError string | ThrownUndefined | ThrownNull

definition read_message :: "JsError \<Rightarrow> JsError + string" where
  "read_message error =
     (case error of
        JsError msg \<Rightarrow> Inr msg
      | ThrownUndefined \<Rightarrow>
          Inl (JsError (''Cannot read properties of undefined (reading '' @ [CHR 0x27]
            @ ''message'' @ [CHR 0x27] @ '')''))
      | ThrownNull \<Rightarrow>
          Inl (JsError (''Cannot read properties of null (reading '' @ [CHR 0x27]
            @ ''message'' @ [CHR 0x27] @ '')'')))"

section \<open>The state the plugin works on\<close>

text \<open>
  \<^verbatim>\<open>ProcessingResult\<close> and \<^verbatim>\<open>FunctionConfig\<close> are the interfaces of the plugin's file;
  a \<^verbatim>\<open>FunctionConfig\<close> is an object whose property \<^verbatim>\<open>reservedConcurrency\<close> may be
  absent. \<open>Serverless\<close> holds what the plugin reads of \<^verbatim>\<open>serverless.service\<close>: the
  service name, \<^verbatim>\<open>provider.stage\<close>, and \<^verbatim>\<open>functions\<close> (the field
  \<open>service_functions\<close>) as the list \<^verbatim>\<open>Object.entries\<close> gives, each name with the
  reference of its definition; \<open>None\<close> where \<^verbatim>\<open>functions\<close> is null or undefined.
\<close>

record ProcessingResult =
  modifiedCount :: nat
  errorCount :: nat

record Serverless =
  service :: string
  stage :: string
  service_functions :: "(string \<times> ref) list option"

text \<open>
  The world is everything a hook reads or changes: the descriptor, the objects behind
  the references, the state of the remote provider (\<open>'st\<close>, of which the plugin knows
  nothing), the requests sent to the provider so far (service, method,
  \<^verbatim>\<open>FunctionName\<close>) and the messages given to \<^verbatim>\<open>this.log.info\<close> and
  \<^verbatim>\<open>this.log.error\<close> so far, both oldest first. The prefix the legacy logger puts
  before a message is not part of the message recorded here.
\<close>

datatype level = Info | Error

record ('v, 'st) world =
  serverless :: Serverless
  objects :: "ref \<Rightarrow> 'v obj"
  remote :: 'st
  calls :: "(string \<times> string \<times> string) list"
  logged :: "(level \<times> string) list"

text \<open>
  \<^verbatim>\<open>provider.request(service, method, {FunctionName})\<close>: the provider takes the request
  when it is called, answers from the remote state and may change it; \<open>Inl\<close> is a
  rejected request. The answer is read when the caller's \<^verbatim>\<open>await\<close> goes on.
\<close>

type_synonym ('v, 'st) provider =
  "string \<Rightarrow> string \<Rightarrow> string \<Rightarrow> 'st \<Rightarrow> (JsError + 'v obj) \<times> 'st"

datatype hook =
    RemoveReservedConcurrencyFromSLS
  | RemoveReservedConcurrencyFromAws
  | RemoveReservedConcurrencyFromAwsForFunction

text \<open>
  The plugin object of the batched file: \<^verbatim>\<open>this.provider\<close>, \<^verbatim>\<open>this.options.function\<close>
  and \<^verbatim>\<open>this.hooks\<close>, the hooks in the order of the object literal. A leading underscore
  of a method's name is dropped.
\<close>

record ('v, 'st) plugin =
  provider :: "('v, 'st) provider"
  options_function :: "string option"
  hooks :: "(string \<times> hook) list"

definition WARMUP_FUNCTION_IDENTIFIER :: string where
  "WARMUP_FUNCTION_IDENTIFIER = ''warmUp''"

definition DEV_STAGES :: "string list" where
  "DEV_STAGES = [''dev'', ''development'', ''feature'']"

definition AWS_CONCURRENCY_BATCH_SIZE :: nat where
  "AWS_CONCURRENCY_BATCH_SIZE = 5"

definition log_info :: "string \<Rightarrow> ('v, 'st) world \<Rightarrow> ('v, 'st) world" where
  "log_info msg w = w\<lparr>logged := logged w @ [(Info, msg)]\<rparr>"

definition log_error :: "string \<Rightarrow> ('v, 'st) world \<Rightarrow> ('v, 'st) world" where
  "log_error msg w = w\<lparr>logged := logged w @ [(Error, msg)]\<rparr>"

definition provider_request ::
  "('v, 'st) plugin \<Rightarrow> string \<Rightarrow> string \<Rightarrow> string \<Rightarrow> ('v, 'st) world
     \<Rightarrow> (JsError + 'v obj) \<times> ('v, 'st) world" where
  "provider_request this svc method functionName w =
     (case provider this svc method functionName (remote w) of
        (response, st) \<Rightarrow>
          (response, w\<lparr>remote := st, calls := calls w @ [(svc, method, functionName)]\<rparr>))"

section \<open>Stage classification and construction\<close>

definition isDevelopmentStage :: "string \<Rightarrow> bool" where
  "isDevelopmentStage stg =
     (let lowerStage = toLowerCase stg
      in List.member DEV_STAGES lowerStage \<or> startsWith lowerStage ''feature-'')"

definition constructor ::
  "('v, 'st) provider \<Rightarrow> string option \<Rightarrow> ('v, 'st) world
     \<Rightarrow> ('v, 'st) plugin \<times> ('v, 'st) world" where
  "constructor prov opt_function w =
     (let stg = stage (serverless w);
          isDev = isDevelopmentStage stg
      in if isDev then
           (\<lparr>provider = prov, options_function = opt_function,
             hooks =
               [(''before:deploy:deploy'', RemoveReservedConcurrencyFromSLS),
                (''before:deploy:function:deploy'', RemoveReservedConcurrencyFromSLS),
                (''before:package:createDeploymentArtifacts'', RemoveReservedConcurrencyFromSLS),
                (''before:aws:deploy:deploy:createStack'', RemoveReservedConcurrencyFromSLS),
                (''after:aws:deploy:deploy:updateStack'', RemoveReservedConcurrencyFromAws),
                (''after:deploy:function:deploy'', RemoveReservedConcurrencyFromAwsForFunction)]\<rparr>,
            log_info (''Development stage detected ('' @ stg
              @ ''). Plugin will remove reserved concurrency settings.'') w)
         else
           (\<lparr>provider = prov, options_function = opt_function, hooks = []\<rparr>,
            log_info (''Production stage detected ('' @ stg
              @ ''). Plugin will not modify any concurrency settings.'') w))"

text \<open>
  \<^verbatim>\<open>_measureExecutionTime\<close>: \<open>elapsed\<close> is the text of the measured time
  (\<^verbatim>\<open>${timeEnd[0]}s ${timeEnd[1] / 1e6}ms\<close>), which the clock decides. A failure of the
  operation is logged and thrown again; where the failure has no message to read, the
  read throws before anything is logged.
\<close>

definition measureExecutionTime ::
  "string \<Rightarrow> string \<Rightarrow> (('v, 'st) world \<Rightarrow> (JsError + 'a) \<times> ('v, 'st) world)
     \<Rightarrow> ('v, 'st) world \<Rightarrow> (JsError + 'a) \<times> ('v, 'st) world" where
  "measureExecutionTime operation elapsed fn w =
     (case fn (log_info (''Starting: '' @ operation) w) of
        (Inr result, w1) \<Rightarrow>
          (Inr result, log_info (''Finished: '' @ operation @ '' in '' @ elapsed) w1)
      | (Inl error, w1) \<Rightarrow>
          (case read_message error of
             Inl typeError \<Rightarrow> (Inl typeError, w1)
           | Inr msg \<Rightarrow>
               (Inl error,
                log_error (''Failed: '' @ operation @ '' after '' @ elapsed @ '' - '' @ msg)
                  w1)))"

section \<open>Removing reserved concurrency from the descriptor\<close>

text \<open>
  \<^verbatim>\<open>config\<close> is a reference: the test reads the object behind it and the \<^verbatim>\<open>delete\<close>
  changes that object in place, for every name that holds it.
\<close>

definition removeConcurrencyFromFunction ::
  "string \<Rightarrow> ref \<Rightarrow> ('v, 'st) world \<Rightarrow> bool \<times> ('v, 'st) world" where
  "removeConcurrencyFromFunction functionName config w =
     (if objects w config ''reservedConcurrency'' \<noteq> None then
        (True,
         (log_info (''Removing reserved concurrency from Serverless config for function: ''
            @ functionName) w)
           \<lparr>objects := (objects w)(config := (objects w config)(''reservedConcurrency'' := None))\<rparr>)
      else (False, w))"

text \<open>The \<^verbatim>\<open>forEach\<close> of \<^verbatim>\<open>_processServerlessConfigFunctions\<close>, with its counter.\<close>

fun processServerlessConfigFunctions_forEach ::
  "(string \<times> ref) list \<Rightarrow> nat \<Rightarrow> ('v, 'st) world \<Rightarrow> nat \<times> ('v, 'st) world" where
  "processServerlessConfigFunctions_forEach [] mc w = (mc, w)"
| "processServerlessConfigFunctions_forEach ((functionName, functionConfig) # rest) mc w =
     (case removeConcurrencyFromFunction functionName functionConfig w of
        (removed, w1) \<Rightarrow>
          processServerlessConfigFunctions_forEach rest (if removed then mc + 1 else mc) w1)"

definition processServerlessConfigFunctions ::
  "(string \<times> ref) list \<Rightarrow> ('v, 'st) world \<Rightarrow> ProcessingResult \<times> ('v, 'st) world" where
  "processServerlessConfigFunctions fns w =
     (case processServerlessConfigFunctions_forEach fns 0 w of
        (mc, w1) \<Rightarrow> (\<lparr>modifiedCount = mc, errorCount = 0\<rparr>, w1))"

definition logServerlessConfigResult ::
  "ProcessingResult \<Rightarrow> ('v, 'st) world \<Rightarrow> ('v, 'st) world" where
  "logServerlessConfigResult result w =
     (if modifiedCount result > 0 then
        log_info (''Modified '' @ show_nat (modifiedCount result)
          @ '' functions to remove reserved concurrency settings'') w
      else log_info ''No functions with reserved concurrency found in Serverless config'' w)"

text \<open>The hook: \<^verbatim>\<open>functions ?? {}\<close> has no entry when the descriptor has no functions.\<close>

definition removeReservedConcurrencyFromSLS ::
  "('v, 'st) plugin \<Rightarrow> string \<Rightarrow> ('v, 'st) world \<Rightarrow> (JsError + unit) \<times> ('v, 'st) world" where
  "removeReservedConcurrencyFromSLS this elapsed w =
     measureExecutionTime ''Remove reserved concurrency from Serverless config'' elapsed
       (\<lambda>w0.
          (case processServerlessConfigFunctions
                  (case service_functions (serverless w0) of None \<Rightarrow> [] | Some fns \<Rightarrow> fns) w0 of
             (result, w1) \<Rightarrow> (Inr (), logServerlessConfigResult result w1)))
       w"

section \<open>Removing reserved concurrency from the deployed functions\<close>

definition getFunctionName :: "('v, 'st) world \<Rightarrow> string \<Rightarrow> string" where
  "getFunctionName w functionName =
     service (serverless w) @ ''-'' @ stage (serverless w) @ ''-'' @ functionName"

definition shouldSkipFunction :: "string \<Rightarrow> bool" where
  "shouldSkipFunction awsFunctionName =
     str_includes awsFunctionName WARMUP_FUNCTION_IDENTIFIER"

text \<open>
  \<^verbatim>\<open>_checkAndRemoveReservedConcurrency\<close> and \<^verbatim>\<open>_processAwsFunction\<close> as they run when
  one call is awaited on its own: each request is answered before the function goes on.
\<close>

definition checkAndRemoveReservedConcurrency ::
  "('v, 'st) plugin \<Rightarrow> string \<Rightarrow> ('v, 'st) world \<Rightarrow> (JsError + bool) \<times> ('v, 'st) world" where
  "checkAndRemoveReservedConcurrency this awsFunctionName w =
     (case provider_request this ''Lambda'' ''getFunctionConfiguration'' awsFunctionName w of
        (Inl error, w1) \<Rightarrow> (Inl error, w1)
      | (Inr config, w1) \<Rightarrow>
          if config ''ReservedConcurrentExecutions'' \<noteq> None then
            (case provider_request this ''Lambda'' ''deleteFunctionConcurrency'' awsFunctionName
                    (log_info (''Removing reserved concurrency from AWS for function: ''
                       @ awsFunctionName) w1) of
               (Inl error, w2) \<Rightarrow> (Inl error, w2)
             | (Inr _, w2) \<Rightarrow>
                 (Inr True,
                  log_info (''Successfully removed reserved concurrency from AWS for function: ''
                    @ awsFunctionName) w2))
          else (Inr False, w1))"

text \<open>
  The \<^verbatim>\<open>catch\<close> of \<^verbatim>\<open>_processAwsFunction\<close>: it reads the message of what was thrown,
  and where that read throws, the function rejects.
\<close>

definition processAwsFunction_catch ::
  "string \<Rightarrow> JsError \<Rightarrow> ('v, 'st) world \<Rightarrow> (JsError + ProcessingResult) \<times> ('v, 'st) world" where
  "processAwsFunction_catch functionName error w =
     (case read_message error of
        Inl typeError \<Rightarrow> (Inl typeError, w)
      | Inr msg \<Rightarrow>
          (Inr \<lparr>modifiedCount = 0, errorCount = 1\<rparr>,
           log_error (''Error removing reserved concurrency from AWS for function ''
             @ functionName @ '': '' @ msg) w))"

definition processAwsFunction_try ::
  "('v, 'st) plugin \<Rightarrow> string \<Rightarrow> ('v, 'st) world
     \<Rightarrow> (JsError + ProcessingResult) \<times> ('v, 'st) world" where
  "processAwsFunction_try this functionName w =
     (let awsFunctionName = getFunctionName w functionName
      in if shouldSkipFunction awsFunctionName then
           (Inr \<lparr>modifiedCount = 0, errorCount = 0\<rparr>,
            log_info (''Skipping warmUp function: '' @ awsFunctionName) w)
         else
           (case checkAndRemoveReservedConcurrency this awsFunctionName w of
              (Inl error, w1) \<Rightarrow> (Inl error, w1)
            | (Inr hasReservedConcurrency, w1) \<Rightarrow>
                (Inr \<lparr>modifiedCount = (if hasReservedConcurrency then 1 else 0),
                      errorCount = 0\<rparr>, w1)))"

definition processAwsFunction ::
  "('v, 'st) plugin \<Rightarrow> string \<Rightarrow> ('v, 'st) world
     \<Rightarrow> (JsError + ProcessingResult) \<times> ('v, 'st) world" where
  "processAwsFunction this functionName w =
     (case processAwsFunction_try this functionName w of
        (Inr result, w1) \<Rightarrow> (Inr result, w1)
      | (Inl error, w1) \<Rightarrow> processAwsFunction_catch functionName error w1)"

text \<open>
  In a batch the calls of \<^verbatim>\<open>_processAwsFunction\<close> run as tasks side by side, and a task
  stops at each \<^verbatim>\<open>await\<close>. A task is settled (with its result, or rejected), or it
  waits for the answer to its fetch, or for the answer to its delete; a waiting task
  holds the logical name, the resolved identifier and the answer the provider has given.
  \<open>processAwsFunction_start\<close> is the function up to its first \<^verbatim>\<open>await\<close>: a skipped
  function settles at once, every other one sends its fetch.
  \<open>processAwsFunction_resume\<close> is the function from one \<^verbatim>\<open>await\<close> to the next: with
  the answer to the fetch it settles, or logs and sends the delete; with the answer to
  the delete it settles.
\<close>

datatype 'v task =
    Settled "JsError + ProcessingResult"
  | AwaitingFetch string string "JsError + 'v obj"
  | AwaitingDelete string string "JsError + 'v obj"

definition processAwsFunction_start ::
  "('v, 'st) plugin \<Rightarrow> string \<Rightarrow> ('v, 'st) world \<Rightarrow> 'v task \<times> ('v, 'st) world" where
  "processAwsFunction_start this functionName w =
     (let awsFunctionName = getFunctionName w functionName
      in if shouldSkipFunction awsFunctionName then
           (Settled (Inr \<lparr>modifiedCount = 0, errorCount = 0\<rparr>),
            log_info (''Skipping warmUp function: '' @ awsFunctionName) w)
         else
           (case provider_request this ''Lambda'' ''getFunctionConfiguration''
                   awsFunctionName w of
              (response, w1) \<Rightarrow> (AwaitingFetch functionName awsFunctionName response, w1)))"

fun processAwsFunction_resume ::
  "('v, 'st) plugin \<Rightarrow> 'v task \<Rightarrow> ('v, 'st) world \<Rightarrow> 'v task \<times> ('v, 'st) world" where
  "processAwsFunction_resume this (Settled outcome) w = (Settled outcome, w)"
| "processAwsFunction_resume this (AwaitingFetch functionName awsFunctionName response) w =
     (case response of
        Inl error \<Rightarrow>
          (case processAwsFunction_catch functionName error w of
             (outcome, w1) \<Rightarrow> (Settled outcome, w1))
      | Inr config \<Rightarrow>
          if config ''ReservedConcurrentExecutions'' \<noteq> None then
            (case provider_request this ''Lambda'' ''deleteFunctionConcurrency'' awsFunctionName
                    (log_info (''Removing reserved concurrency from AWS for function: ''
                       @ awsFunctionName) w) of
               (response', w1) \<Rightarrow> (AwaitingDelete functionName awsFunctionName response', w1))
          else (Settled (Inr \<lparr>modifiedCount = 0, errorCount = 0\<rparr>), w))"
| "processAwsFunction_resume this (AwaitingDelete functionName awsFunctionName response) w =
     (case response of
        Inl error \<Rightarrow>
          (case processAwsFunction_catch functionName error w of
             (outcome, w1) \<Rightarrow> (Settled outcome, w1))
      | Inr _ \<Rightarrow>
          (Settled (Inr \<lparr>modifiedCount = 1, errorCount = 0\<rparr>),
           log_info (''Successfully removed reserved concurrency from AWS for function: ''
             @ awsFunctionName) w))"

text \<open>
  \<^verbatim>\<open>Promise.all(batch.map(([functionName, _]) => this._processAwsFunction(functionName)))\<close>:
  \<^verbatim>\<open>map\<close> starts the tasks one after the other, so every fetch of the batch is sent
  before anything else happens. Then the answers are handled in the order in which the
  requests were sent, each task going on to its next \<^verbatim>\<open>await\<close>: first the answers to the
  fetches, where the deletes are sent, then the answers to the deletes. The result is the
  list of the tasks' results, or the rejection of the task that rejected first.
  \<^verbatim>\<open>Promise.all\<close> rejects as soon as that task does while the other tasks go on; the world
  given back here is the one in which all tasks of the batch have settled.
\<close>

fun each_in_turn :: "('a \<Rightarrow> 'w \<Rightarrow> 'b \<times> 'w) \<Rightarrow> 'a list \<Rightarrow> 'w \<Rightarrow> 'b list \<times> 'w" where
  "each_in_turn f [] w = ([], w)"
| "each_in_turn f (x # xs) w =
     (case f x w of
        (y, w1) \<Rightarrow> (case each_in_turn f xs w1 of (ys, w2) \<Rightarrow> (y # ys, w2)))"

fun first_rejection :: "'v task list \<Rightarrow> JsError option" where
  "first_rejection [] = None"
| "first_rejection (Settled (Inl error) # tasks) = Some error"
| "first_rejection (t # tasks) = first_rejection tasks"

fun settled_values :: "'v task list \<Rightarrow> ProcessingResult list" where
  "settled_values [] = []"
| "settled_values (Settled (Inr result) # tasks) = result # settled_values tasks"
| "settled_values (t # tasks) = settled_values tasks"

definition process_all ::
  "('v, 'st) plugin \<Rightarrow> (string \<times> ref) list \<Rightarrow> ('v, 'st) world
     \<Rightarrow> (JsError + ProcessingResult list) \<times> ('v, 'st) world" where
  "process_all this batch w =
     (case each_in_turn (\<lambda>(functionName, _). processAwsFunction_start this functionName)
             batch w of
        (started, w0) \<Rightarrow>
          (case each_in_turn (processAwsFunction_resume this) started w0 of
             (fetched, w1) \<Rightarrow>
               (case each_in_turn (processAwsFunction_resume this) fetched w1 of
                  (settled, w2) \<Rightarrow>
                    ((case first_rejection fetched of
                        Some error \<Rightarrow> Inl error
                      | None \<Rightarrow>
                          (case first_rejection settled of
                             Some error \<Rightarrow> Inl error
                           | None \<Rightarrow> Inr (settled_values settled))),
                     w2))))"

text \<open>
  The loop of \<^verbatim>\<open>_processAwsFunctionsInBatches\<close> from index \<open>i\<close>, with the two counters;
  a rejection of \<^verbatim>\<open>Promise.all\<close> leaves the loop and rejects the whole call.
\<close>

function processAwsFunctionsInBatches_loop ::
  "('v, 'st) plugin \<Rightarrow> (string \<times> ref) list \<Rightarrow> nat \<Rightarrow> nat \<Rightarrow> nat \<Rightarrow> ('v, 'st) world
     \<Rightarrow> (JsError + ProcessingResult) \<times> ('v, 'st) world" where
  "processAwsFunctionsInBatches_loop this functionEntries i mc ec w =
     (if i < length functionEntries then
        (case process_all this (slice functionEntries i (i + AWS_CONCURRENCY_BATCH_SIZE)) w of
           (Inl error, w1) \<Rightarrow> (Inl error, w1)
         | (Inr batchResults, w1) \<Rightarrow>
             processAwsFunctionsInBatches_loop this functionEntries
               (i + AWS_CONCURRENCY_BATCH_SIZE)
               (foldl (\<lambda>m result. m + modifiedCount result) mc batchResults)
               (foldl (\<lambda>e result. e + errorCount result) ec batchResults)
               w1)
      else (Inr \<lparr>modifiedCount = mc, errorCount = ec\<rparr>, w))"
  by pat_completeness auto
termination
  by (relation "measure (\<lambda>(this, functionEntries, i, mc, ec, w). length functionEntries - i)")
     (auto simp: AWS_CONCURRENCY_BATCH_SIZE_def)

declare processAwsFunctionsInBatches_loop.simps [simp del]

definition processAwsFunctionsInBatches ::
  "('v, 'st) plugin \<Rightarrow> (string \<times> ref) list \<Rightarrow> ('v, 'st) world
     \<Rightarrow> (JsError + ProcessingResult) \<times> ('v, 'st) world" where
  "processAwsFunctionsInBatches this functionEntries w =
     processAwsFunctionsInBatches_loop this functionEntries 0 0 0 w"

text \<open>
  The same loop with the \<^verbatim>\<open>batchResults\<close> of its iterations kept, one after the other,
  in place of the two sums: the result of every function's task, in the order of the
  entries.
\<close>

function all_batchResults ::
  "('v, 'st) plugin \<Rightarrow> (string \<times> ref) list \<Rightarrow> nat \<Rightarrow> ('v, 'st) world
     \<Rightarrow> (JsError + ProcessingResult list) \<times> ('v, 'st) world" where
  "all_batchResults this functionEntries i w =
     (if i < length functionEntries then
        (case process_all this (slice functionEntries i (i + AWS_CONCURRENCY_BATCH_SIZE)) w of
           (Inl error, w1) \<Rightarrow> (Inl error, w1)
         | (Inr batchResults, w1) \<Rightarrow>
             (case all_batchResults this functionEntries (i + AWS_CONCURRENCY_BATCH_SIZE) w1 of
                (Inl error, w2) \<Rightarrow> (Inl error, w2)
              | (Inr later, w2) \<Rightarrow> (Inr (batchResults @ later), w2)))
      else (Inr [], w))"
  by pat_completeness auto
termination
  by (relation "measure (\<lambda>(this, functionEntries, i, w). length functionEntries - i)")
     (auto simp: AWS_CONCURRENCY_BATCH_SIZE_def)

declare all_batchResults.simps [simp del]

definition logAwsResult :: "ProcessingResult \<Rightarrow> ('v, 'st) world \<Rightarrow> ('v, 'st) world" where
  "logAwsResult result w =
     (let w1 =
        (if modifiedCount result > 0 then
           log_info (''Successfully removed reserved concurrency from AWS for ''
             @ show_nat (modifiedCount result) @ '' functions'') w
         else if errorCount result = 0 then
           log_info ''No functions with reserved concurrency found in AWS'' w
         else w)
      in if errorCount result > 0 then
           log_error (''Failed to remove reserved concurrency for ''
             @ show_nat (errorCount result) @ '' functions'') w1
         else w1)"

definition removeReservedConcurrencyFromAws ::
  "('v, 'st) plugin \<Rightarrow> string \<Rightarrow> ('v, 'st) world \<Rightarrow> (JsError + unit) \<times> ('v, 'st) world" where
  "removeReservedConcurrencyFromAws this elapsed w =
     measureExecutionTime ''Remove reserved concurrency from AWS for all functions'' elapsed
       (\<lambda>w0.
          (case processAwsFunctionsInBatches this
                  (case service_functions (serverless w0) of None \<Rightarrow> [] | Some fns \<Rightarrow> fns) w0 of
             (Inl error, w1) \<Rightarrow> (Inl error, w1)
           | (Inr result, w1) \<Rightarrow> (Inr (), logAwsResult result w1)))
       w"

section \<open>Removing reserved concurrency from one deployed function\<close>

text \<open>
  \<^verbatim>\<open>!functionName\<close> holds of \<^verbatim>\<open>undefined\<close> and of the empty string. In the hook,
  \<^verbatim>\<open>functionName!\<close> is \<open>the\<close>, read only after the validation has returned true.
\<close>

definition validateFunctionName ::
  "string option \<Rightarrow> ('v, 'st) world \<Rightarrow> bool \<times> ('v, 'st) world" where
  "validateFunctionName functionName w =
     (if functionName = None \<or> functionName = Some [] then
        (False, log_error ''No function specified'' w)
      else (True, w))"

definition processSingleAwsFunction ::
  "('v, 'st) plugin \<Rightarrow> string \<Rightarrow> ('v, 'st) world
     \<Rightarrow> (JsError + ProcessingResult) \<times> ('v, 'st) world" where
  "processSingleAwsFunction this functionName w =
     (case
        (let awsFunctionName = getFunctionName w functionName
         in if shouldSkipFunction awsFunctionName then
              (Inr \<lparr>modifiedCount = 0, errorCount = 0\<rparr>,
               log_info (''Skipping warmUp function: '' @ awsFunctionName) w)
            else
              (case checkAndRemoveReservedConcurrency this awsFunctionName w of
                 (Inl error, w1) \<Rightarrow> (Inl error, w1)
               | (Inr hasReservedConcurrency, w1) \<Rightarrow>
                   (Inr \<lparr>modifiedCount = (if hasReservedConcurrency then 1 else 0),
                         errorCount = 0\<rparr>, w1))) of
        (Inr result, w1) \<Rightarrow> (Inr result, w1)
      | (Inl error, w1) \<Rightarrow>
          (case read_message error of
             Inl typeError \<Rightarrow> (Inl typeError, w1)
           | Inr msg \<Rightarrow>
               (Inr \<lparr>modifiedCount = 0, errorCount = 1\<rparr>,
                log_error (''Error removing reserved concurrency from AWS for function ''
                  @ functionName @ '': '' @ msg) w1)))"

definition logSingleFunctionResult ::
  "string \<Rightarrow> ProcessingResult \<Rightarrow> ('v, 'st) world \<Rightarrow> ('v, 'st) world" where
  "logSingleFunctionResult functionName result w =
     (let awsFunctionName = getFunctionName w functionName
      in if modifiedCount result > 0 then
           log_info (''Successfully removed reserved concurrency from AWS for function: ''
             @ awsFunctionName) w
         else if errorCount result = 0 then
           log_info (''No reserved concurrency found for function: '' @ awsFunctionName) w
         else w)"

definition removeReservedConcurrencyFromAwsForFunction ::
  "('v, 'st) plugin \<Rightarrow> string \<Rightarrow> ('v, 'st) world \<Rightarrow> (JsError + unit) \<times> ('v, 'st) world" where
  "removeReservedConcurrencyFromAwsForFunction this elapsed w =
     measureExecutionTime ''Remove reserved concurrency from AWS for single function'' elapsed
       (\<lambda>w0.
          (case validateFunctionName (options_function this) w0 of
             (False, w1) \<Rightarrow> (Inr (), w1)
           | (True, w1) \<Rightarrow>
               (case processSingleAwsFunction this (the (options_function this)) w1 of
                  (Inl error, w2) \<Rightarrow> (Inl error, w2)
                | (Inr result, w2) \<Rightarrow>
                    (Inr (),
                     logSingleFunctionResult (the (options_function this)) result w2))))
       w"

text \<open>What a registered hook runs: the method the constructor bound to it.\<close>

definition run_hook ::
  "('v, 'st) plugin \<Rightarrow> hook \<Rightarrow> string \<Rightarrow> ('v, 'st) world \<Rightarrow> (JsError + unit) \<times> ('v, 'st) world" where
  "run_hook this h elapsed w =
     (case h of
        RemoveReservedConcurrencyFromSLS \<Rightarrow> removeReservedConcurrencyFromSLS this elapsed w
      | RemoveReservedConcurrencyFromAws \<Rightarrow> removeReservedConcurrencyFromAws this elapsed w
      | RemoveReservedConcurrencyFromAwsForFunction \<Rightarrow>
          removeReservedConcurrencyFromAwsForFunction this elapsed w)"

section \<open>The earlier entry file\<close>

text \<open>
  \<^verbatim>\<open>src/index.ts\<close> is an earlier form of the plugin: the same classification written as
  a chain of comparisons, three hooks, and a descriptor pass that logs no line per
  function. It keeps no options (\<open>options_function\<close> is \<open>None\<close>), and its hooks
  name its own methods; its pass over the deployed functions, one function after the
  other, is not translated here.
\<close>

definition isDevelopmentStage_index :: "string \<Rightarrow> bool" where
  "isDevelopmentStage_index stg =
     (let lowerStage = toLowerCase stg
      in lowerStage = ''dev'' \<or> lowerStage = ''development'' \<or> lowerStage = ''feature''
         \<or> startsWith lowerStage ''feature-'')"

definition constructor_index ::
  "('v, 'st) provider \<Rightarrow> ('v, 'st) world \<Rightarrow> ('v, 'st) plugin \<times> ('v, 'st) world" where
  "constructor_index prov w =
     (let stg = stage (serverless w);
          isDev = isDevelopmentStage_index stg
      in if isDev then
           (\<lparr>provider = prov, options_function = None,
             hooks =
               [(''before:package:initialize'', RemoveReservedConcurrencyFromSLS),
                (''after:deploy:deploy'', RemoveReservedConcurrencyFromAws),
                (''after:deploy:function:deploy'', RemoveReservedConcurrencyFromAws)]\<rparr>,
            log_info (''Development stage detected ('' @ stg
              @ ''). Plugin will remove reserved concurrency settings.'') w)
         else
           (\<lparr>provider = prov, options_function = None, hooks = []\<rparr>,
            log_info (''Production stage detected ('' @ stg
              @ ''). Plugin will not modify any concurrency settings.'') w))"

fun removeReservedConcurrencyFromSLS_index_forEach ::
  "(string \<times> ref) list \<Rightarrow> nat \<Rightarrow> ('v, 'st) world \<Rightarrow> nat \<times> ('v, 'st) world" where
  "removeReservedConcurrencyFromSLS_index_forEach [] mc w = (mc, w)"
| "removeReservedConcurrencyFromSLS_index_forEach ((name, config) # rest) mc w =
     (if objects w config ''reservedConcurrency'' \<noteq> None then
        removeReservedConcurrencyFromSLS_index_forEach rest (mc + 1)
          (w\<lparr>objects :=
               (objects w)(config := (objects w config)(''reservedConcurrency'' := None))\<rparr>)
      else removeReservedConcurrencyFromSLS_index_forEach rest mc w)"

definition removeReservedConcurrencyFromSLS_index ::
  "('v, 'st) plugin \<Rightarrow> string \<Rightarrow> ('v, 'st) world \<Rightarrow> (JsError + unit) \<times> ('v, 'st) world" where
  "removeReservedConcurrencyFromSLS_index this elapsed w =
     measureExecutionTime ''Remove reserved concurrency from Serverless config'' elapsed
       (\<lambda>w0.
          (case removeReservedConcurrencyFromSLS_index_forEach
                  (case service_functions (serverless w0) of None \<Rightarrow> [] | Some fns \<Rightarrow> fns)
                  0 w0 of
             (mc, w1) \<Rightarrow>
               (Inr (),
                (if mc > 0 then
                   log_info (''Modified '' @ show_nat mc
                     @ '' functions to remove reserved concurrency settings'')
                 else log_info ''No functions with reserved concurrency found in Serverless config'')
                  w1)))
       w"

section \<open>Consecutive batches, as the specification words them\<close>






text \<open>
  The specification counts the entries of the function mapping in which the
  reserved-concurrency field is present: \<open>field_present w entry\<close> reads the field in
  the definition the entry holds.
\<close>

definition field_present :: "('v, 'st) world \<Rightarrow> string \<times> ref \<Rightarrow> bool" where
  "field_present w entry = (objects w (snd entry) ''reservedConcurrency'' \<noteq> None)"

section \<open>What the plugin assumes of the remote API\<close>

text \<open>
  The remote API is not part of the plugin. \<open>reserved s n\<close> reads whether the function
  \<open>n\<close> has a reserved-concurrency setting in the remote state \<open>s\<close>. The contract: a
  fetch that succeeds reports the field exactly when the function has the setting; after
  a delete that succeeds the function has none; and no request, answered or rejected,
  gives any function a setting it did not have. Nothing is assumed of when a request is
  rejected. \<open>rejects_with_messages\<close> says that what a provider rejects with is never
  \<^verbatim>\<open>undefined\<close> or \<^verbatim>\<open>null\<close>.
\<close>

definition remote_api_contract ::
  "('v, 'st) provider \<Rightarrow> ('st \<Rightarrow> string \<Rightarrow> bool) \<Rightarrow> bool" where
  "remote_api_contract prov reserved =
     ((\<forall>n s. case prov ''Lambda'' ''getFunctionConfiguration'' n s of
          (Inl error, s') \<Rightarrow> (\<forall>m. reserved s' m \<longrightarrow> reserved s m)
        | (Inr config, s') \<Rightarrow>
            (config ''ReservedConcurrentExecutions'' \<noteq> None) = reserved s n
            \<and> (\<forall>m. reserved s' m \<longrightarrow> reserved s m))
      \<and> (\<forall>n s. case prov ''Lambda'' ''deleteFunctionConcurrency'' n s of
          (Inl error, s') \<Rightarrow> (\<forall>m. reserved s' m \<longrightarrow> reserved s m)
        | (Inr response, s') \<Rightarrow>
            \<not> reserved s' n \<and> (\<forall>m. reserved s' m \<longrightarrow> reserved s m)))"

definition rejects_with_messages :: "('v, 'st) provider \<Rightarrow> bool" where
  "rejects_with_messages prov =
     (\<forall>svc method n s error. fst (prov svc method n s) = Inl error \<longrightarrow> (\<exists>msg. error = JsError msg))"

section \<open>Example inputs\<close>

text \<open>
  A remote API for the examples: the reserved-concurrency setting of each deployed
  function, and the rejections still to come, each a function's identifier with the
  message of the error the request is rejected with. A request that names a function with
  a rejection to come is rejected, uses that rejection up and changes no setting.
  Otherwise a fetch answers with the setting and a delete removes it.
  \<open>lambda_sim_undefined\<close> is the same API rejecting with \<^verbatim>\<open>undefined\<close> in place of an
  error.
\<close>

record lambda_state =
  settings :: "string \<rightharpoonup> int"
  faults :: "(string \<times> string) list"

definition lambda_sim :: "(int, lambda_state) provider" where
  "lambda_sim svc method functionName s =
     (case map_of (faults s) functionName of
        Some msg \<Rightarrow>
          (Inl (JsError msg), s\<lparr>faults := remove1 (functionName, msg) (faults s)\<rparr>)
      | None \<Rightarrow>
          (if method = ''getFunctionConfiguration'' then
             (Inr (case settings s functionName of
                     None \<Rightarrow> Map.empty
                   | Some k \<Rightarrow> [''ReservedConcurrentExecutions'' \<mapsto> k]),
              s)
           else (Inr Map.empty, s\<lparr>settings := (settings s)(functionName := None)\<rparr>)))"

definition lambda_sim_undefined :: "(int, lambda_state) provider" where
  "lambda_sim_undefined svc method functionName s =
     (case lambda_sim svc method functionName s of
        (Inl error, s') \<Rightarrow> (Inl ThrownUndefined, s')
      | (Inr response, s') \<Rightarrow> (Inr response, s'))"

definition has_setting :: "lambda_state \<Rightarrow> string \<Rightarrow> bool" where
  "has_setting s functionName = (settings s functionName \<noteq> None)"

definition example_plugin :: "(int, lambda_state) plugin" where
  "example_plugin = \<lparr>provider = lambda_sim, options_function = None, hooks = []\<rparr>"

definition example_plugin_undefined :: "(int, lambda_state) plugin" where
  "example_plugin_undefined =
     \<lparr>provider = lambda_sim_undefined, options_function = None, hooks = []\<rparr>"

text \<open>
  An example world: the service name, the stage, the functions of the descriptor (each
  name with the reference of its definition), the objects behind the references (every
  other reference holds an empty object), the remote settings and the rejections to come.
\<close>

definition example_world ::
  "string \<Rightarrow> string \<Rightarrow> (string \<times> ref) list \<Rightarrow> (ref \<times> int obj) list \<Rightarrow> (string \<times> int) list
     \<Rightarrow> (string \<times> string) list \<Rightarrow> (int, lambda_state) world" where
  "example_world svc stg fns objs reservations fs =
     \<lparr>serverless = \<lparr>service = svc, stage = stg, service_functions = Some fns\<rparr>,
      objects = (\<lambda>r. case map_of objs r of None \<Rightarrow> Map.empty | Some ob \<Rightarrow> ob),
      remote = \<lparr>settings = map_of reservations, faults = fs\<rparr>,
      calls = [], logged = []\<rparr>"

definition example_functions :: "(string \<times> ref) list" where
  "example_functions = [(''a'', 0), (''b'', 1), (''c'', 2)]"

definition example_objects :: "(ref \<times> int obj) list" where
  "example_objects =
     [(0, [''reservedConcurrency'' \<mapsto> 5]), (1, Map.empty),
      (2, [''reservedConcurrency'' \<mapsto> 0])]"

definition example_entries7 :: "(string \<times> ref) list" where
  "example_entries7 =
     [(''f1'', 0), (''f2'', 1), (''f3'', 2), (''f4'', 3), (''f5'', 4), (''f6'', 5), (''f7'', 6)]"

section \<open>Invariants of the tasks\<close>

text \<open>
  What the proofs keep of a task. Its rank is the number of answers it still waits for,
  and its names are the identifier it waits with.
  A task is well formed when a result it has settled with is a modification, an error or
  neither, and the identifier it waits with is not a skipped one; it is clean when it
  has not rejected and holds no rejection without a message. \<open>task_inv before now a t\<close>
  ties the task \<open>t\<close> of the function with the identifier \<open>a\<close> to the reservations
  \<open>before\<close> the run and \<open>now\<close>: a task that has modified, or waits for its delete, found
  \<open>a\<close> reserved before the run; a task that has found nothing to do, or whose delete
  was answered, leaves \<open>a\<close> without a reservation now.
\<close>

fun task_rank :: "'v task \<Rightarrow> nat" where
  "task_rank (Settled outcome) = 0"
| "task_rank (AwaitingDelete functionName awsFunctionName response) = 1"
| "task_rank (AwaitingFetch functionName awsFunctionName response) = 2"


definition result_ok :: "ProcessingResult \<Rightarrow> bool" where
  "result_ok r =
     (r = \<lparr>modifiedCount = 1, errorCount = 0\<rparr> \<or> r = \<lparr>modifiedCount = 0, errorCount = 1\<rparr>
      \<or> r = \<lparr>modifiedCount = 0, errorCount = 0\<rparr>)"

fun task_wf :: "'v task \<Rightarrow> bool" where
  "task_wf (Settled (Inr r)) = result_ok r"
| "task_wf (Settled (Inl error)) = True"
| "task_wf (AwaitingFetch functionName awsFunctionName response) =
     (\<not> shouldSkipFunction awsFunctionName)"
| "task_wf (AwaitingDelete functionName awsFunctionName response) =
     (\<not> shouldSkipFunction awsFunctionName)"

fun task_clean :: "'v task \<Rightarrow> bool" where
  "task_clean (Settled (Inr r)) = True"
| "task_clean (Settled (Inl error)) = False"
| "task_clean (AwaitingFetch functionName awsFunctionName response) =
     (case response of Inl error \<Rightarrow> (\<exists>msg. error = JsError msg) | Inr config \<Rightarrow> True)"
| "task_clean (AwaitingDelete functionName awsFunctionName response) =
     (case response of Inl error \<Rightarrow> (\<exists>msg. error = JsError msg) | Inr config \<Rightarrow> True)"

definition result_inv :: "(string \<Rightarrow> bool) \<Rightarrow> (string \<Rightarrow> bool) \<Rightarrow> string \<Rightarrow> ProcessingResult \<Rightarrow> bool" where
  "result_inv before now a r =
     ((modifiedCount r \<noteq> 0 \<longrightarrow> before a \<and> \<not> shouldSkipFunction a)
      \<and> (errorCount r = 0 \<and> \<not> shouldSkipFunction a \<longrightarrow> \<not> now a))"

fun task_inv :: "(string \<Rightarrow> bool) \<Rightarrow> (string \<Rightarrow> bool) \<Rightarrow> string \<Rightarrow> 'v task \<Rightarrow> bool" where
  "task_inv before now a (Settled (Inr r)) = result_inv before now a r"
| "task_inv before now a (Settled (Inl error)) = True"
| "task_inv before now a (AwaitingFetch functionName awsFunctionName response) =
     (awsFunctionName = a \<and> \<not> shouldSkipFunction a
      \<and> (case response of
            Inl error \<Rightarrow> True
          | Inr config \<Rightarrow>
              (config ''ReservedConcurrentExecutions'' \<noteq> None \<longrightarrow> before a)
              \<and> (config ''ReservedConcurrentExecutions'' = None \<longrightarrow> \<not> now a)))"
| "task_inv before now a (AwaitingDelete functionName awsFunctionName response) =
     (awsFunctionName = a \<and> \<not> shouldSkipFunction a \<and> before a
      \<and> (case response of Inl error \<Rightarrow> True | Inr answer \<Rightarrow> \<not> now a))"

section \<open>Facts of the strings\<close>

lemma startsWith_prefix: "startsWith s p = prefix p s"
  by (induction s p rule: startsWith.induct) auto

lemma str_includes_sublist: "str_includes s sub = sublist sub s"
proof (induction s)
  case Nil
  then show ?case by simp
next
  case (Cons c cs)
  show ?case
  proof (cases sub)
    case Nil
    then show ?thesis by simp
  next
    case (Cons p ps)
    then show ?thesis
      using Cons.IH by (simp add: startsWith_prefix sublist_Cons_right)
  qed
qed

lemma member_DEV_STAGES':
  "(s \<in> set DEV_STAGES) = (s = ''dev'' \<or> s = ''development'' \<or> s = ''feature'')"
  by (auto simp: DEV_STAGES_def)

lemma shouldSkipFunction_sublist:
  "shouldSkipFunction a = sublist WARMUP_FUNCTION_IDENTIFIER a"
  by (simp add: shouldSkipFunction_def str_includes_sublist)

section \<open>What one step touches\<close>

lemma log_info_simps [simp]:
  "serverless (log_info m w) = serverless w"
  "objects (log_info m w) = objects w"
  "remote (log_info m w) = remote w"
  "calls (log_info m w) = calls w"
  "logged (log_info m w) = logged w @ [(Info, m)]"
  by (simp_all add: log_info_def)

lemma log_error_simps [simp]:
  "serverless (log_error m w) = serverless w"
  "objects (log_error m w) = objects w"
  "remote (log_error m w) = remote w"
  "calls (log_error m w) = calls w"
  "logged (log_error m w) = logged w @ [(Error, m)]"
  by (simp_all add: log_error_def)

lemma getFunctionName_log [simp]:
  "getFunctionName (log_info m w) n = getFunctionName w n"
  "getFunctionName (log_error m w) n = getFunctionName w n"
  by (simp_all add: getFunctionName_def)

lemma getFunctionName_serverless:
  "serverless w1 = serverless w \<Longrightarrow> getFunctionName w1 n = getFunctionName w n"
  by (simp add: getFunctionName_def)

lemma provider_request_eq:
  "provider_request this svc method n w = (res, w') \<Longrightarrow>
     provider this svc method n (remote w) = (res, remote w')
     \<and> serverless w' = serverless w \<and> objects w' = objects w \<and> logged w' = logged w
     \<and> calls w' = calls w @ [(svc, method, n)]"
  by (auto simp: provider_request_def split: prod.splits)

lemma read_message_cases:
  "read_message error = Inr msg \<longleftrightarrow> error = JsError msg"
  "(\<exists>typeError. read_message error = Inl typeError) \<longleftrightarrow> error = ThrownUndefined \<or> error = ThrownNull"
  by (auto simp: read_message_def split: JsError.splits)

lemma processAwsFunction_catch_cases:
  "processAwsFunction_catch n error w = (outcome, w') \<Longrightarrow>
     ((\<exists>msg. error = JsError msg
         \<and> outcome = Inr \<lparr>modifiedCount = 0, errorCount = 1\<rparr>
         \<and> w' = log_error (''Error removing reserved concurrency from AWS for function ''
             @ n @ '': '' @ msg) w)
      \<or> ((error = ThrownUndefined \<or> error = ThrownNull) \<and> (\<exists>typeError. outcome = Inl typeError)
          \<and> w' = w))"
  by (auto simp: processAwsFunction_catch_def read_message_def split: JsError.splits)

lemma processAwsFunction_catch_frame:
  assumes "processAwsFunction_catch n error w = (outcome, w')"
  shows "serverless w' = serverless w" "objects w' = objects w" "remote w' = remote w"
    "calls w' = calls w"
  using processAwsFunction_catch_cases [OF assms] by auto

section \<open>One function awaited on its own\<close>

lemma processAwsFunction_skip:
  "shouldSkipFunction (getFunctionName w n) \<Longrightarrow>
     processAwsFunction this n w =
       (Inr \<lparr>modifiedCount = 0, errorCount = 0\<rparr>,
        log_info (''Skipping warmUp function: '' @ getFunctionName w n) w)"
  by (simp add: processAwsFunction_def processAwsFunction_try_def)

lemma processSingleAwsFunction_eq:
  "processSingleAwsFunction this n w = processAwsFunction this n w"
  by (auto simp: processSingleAwsFunction_def processAwsFunction_def processAwsFunction_try_def
      processAwsFunction_catch_def split: prod.splits sum.splits)

section \<open>Running a list in turn\<close>

lemma each_in_turn_length:
  "each_in_turn f xs w = (ys, w') \<Longrightarrow> length ys = length xs"
  by (induction xs arbitrary: w ys) (auto split: prod.splits)

lemma each_in_turn_append:
  "each_in_turn f (xs @ zs) w =
     (case each_in_turn f xs w of
        (ys, w1) \<Rightarrow> (case each_in_turn f zs w1 of (us, w2) \<Rightarrow> (ys @ us, w2)))"
  by (induction xs arbitrary: w) (auto split: prod.splits)

lemma each_in_turn_rel:
  assumes refl: "\<And>w. R w w"
    and trans: "\<And>w w1 w2. R w w1 \<Longrightarrow> R w1 w2 \<Longrightarrow> R w w2"
    and step: "\<And>x w y w1. f x w = (y, w1) \<Longrightarrow> R w w1"
  shows "each_in_turn f xs w = (ys, w') \<Longrightarrow> R w w'"
proof (induction xs arbitrary: w ys)
  case Nil
  then show ?case by (simp add: refl)
next
  case (Cons x xs)
  obtain y w1 where a: "f x w = (y, w1)" by (cases "f x w")
  obtain us where b: "each_in_turn f xs w1 = (us, w')"
    using Cons.prems a by (auto split: prod.splits)
  from step [OF a] Cons.IH [OF b] show ?case by (rule trans)
qed

text \<open>
  An invariant of the elements, one key per position: it holds of every result in the
  last world when it holds of every element in the first, every step keeps it for its
  own element, and the steps of the others do not break it.
\<close>

lemma each_in_turn_inv:
  assumes refl: "\<And>w. R w w"
    and trans: "\<And>w w1 w2. R w w1 \<Longrightarrow> R w1 w2 \<Longrightarrow> R w w2"
    and stableI: "\<And>w w1 k x. R w w1 \<Longrightarrow> I w k x \<Longrightarrow> I w1 k x"
    and stableJ: "\<And>w w1 k y. R w w1 \<Longrightarrow> J w k y \<Longrightarrow> J w1 k y"
    and step: "\<And>x w y w1 k. f x w = (y, w1) \<Longrightarrow> I w k x \<Longrightarrow> J w1 k y \<and> R w w1"
  shows "each_in_turn f xs w = (ys, w') \<Longrightarrow> list_all2 (I w) ks xs
     \<Longrightarrow> list_all2 (J w') ks ys \<and> R w w'"
proof (induction xs arbitrary: w ys ks)
  case Nil
  then show ?case by (simp add: refl)
next
  case (Cons x xs)
  obtain y w1 where a: "f x w = (y, w1)" by (cases "f x w")
  obtain us where b: "each_in_turn f xs w1 = (us, w')" and ys: "ys = y # us"
    using Cons.prems(1) a by (auto split: prod.splits)
  from Cons.prems(2) obtain k ks' where ks: "ks = k # ks'" and k: "I w k x"
    and rest: "list_all2 (I w) ks' xs"
    by (auto simp: list_all2_Cons2)
  from step [OF a k] have j: "J w1 k y" and r: "R w w1" by simp_all
  have "list_all2 (I w1) ks' xs"
    using rest stableI [OF r] by (auto elim: list_all2_mono)
  from Cons.IH [OF b this] have tl: "list_all2 (J w') ks' us" and r2: "R w1 w'" by simp_all
  from stableJ [OF r2 j] tl trans [OF r r2] show ?case by (simp add: ks ys)
qed

section \<open>Tasks\<close>

lemma resume_rank:
  "processAwsFunction_resume this t w = (t', w') \<Longrightarrow> task_rank t' \<le> task_rank t - 1"
  by (cases t) (auto split: sum.splits prod.splits if_splits)

lemma start_wf:
  "processAwsFunction_start this n w = (t, w') \<Longrightarrow> task_wf t"
  by (auto simp: processAwsFunction_start_def Let_def result_ok_def split: if_splits prod.splits)

lemma resume_wf:
  "processAwsFunction_resume this t w = (t', w') \<Longrightarrow> task_wf t \<Longrightarrow> task_wf t'"
  by (cases t)
     (auto simp: result_ok_def split: sum.splits prod.splits if_splits
       dest!: processAwsFunction_catch_cases)

lemma start_frame:
  assumes "processAwsFunction_start this n w = (t, w')"
  shows "serverless w' = serverless w" "objects w' = objects w"
    "\<exists>cs. calls w' = calls w @ cs \<and> (\<forall>c\<in>set cs. \<not> shouldSkipFunction (snd (snd c)))"
  using assms
  by (auto simp: processAwsFunction_start_def Let_def split: if_splits prod.splits
      dest!: provider_request_eq)

lemma resume_frame:
  assumes "processAwsFunction_resume this t w = (t', w')" and "task_wf t"
  shows "serverless w' = serverless w" "objects w' = objects w"
    "\<exists>cs. calls w' = calls w @ cs \<and> (\<forall>c\<in>set cs. \<not> shouldSkipFunction (snd (snd c)))"
  using assms
  by (cases t; auto split: sum.splits prod.splits if_splits
      dest!: provider_request_eq processAwsFunction_catch_cases)+

lemma start_clean:
  "rejects_with_messages (provider this) \<Longrightarrow> processAwsFunction_start this n w = (t, w')
     \<Longrightarrow> task_clean t"
  by (auto simp: processAwsFunction_start_def Let_def rejects_with_messages_def
      provider_request_def
      split: if_splits prod.splits sum.splits)
     (metis fst_conv)

lemma resume_clean:
  "rejects_with_messages (provider this) \<Longrightarrow> processAwsFunction_resume this t w = (t', w')
     \<Longrightarrow> task_clean t \<Longrightarrow> task_clean t'"
  apply (cases t)
    apply (auto simp: rejects_with_messages_def provider_request_def
      processAwsFunction_catch_def read_message_def
      split: if_splits prod.splits sum.splits)
  apply (metis fst_conv)
  done

lemma each_in_turn_all:
  assumes step: "\<And>x w y w1. f x w = (y, w1) \<Longrightarrow> P x \<Longrightarrow> Q y"
  shows "each_in_turn f xs w = (ys, w') \<Longrightarrow> \<forall>x\<in>set xs. P x \<Longrightarrow> \<forall>y\<in>set ys. Q y"
proof (induction xs arbitrary: w ys)
  case Nil
  then show ?case by simp
next
  case (Cons x xs)
  obtain y w1 where a: "f x w = (y, w1)" by (cases "f x w")
  obtain us where b: "each_in_turn f xs w1 = (us, w')" and ys: "ys = y # us"
    using Cons.prems(1) a by (auto split: prod.splits)
  from step [OF a] Cons.prems(2) have "Q y" by simp
  moreover from Cons.IH [OF b] Cons.prems(2) have "\<forall>y\<in>set us. Q y" by simp
  ultimately show ?case by (simp add: ys)
qed

lemma each_in_turn_rel_on:
  assumes refl: "\<And>w. R w w"
    and trans: "\<And>w w1 w2. R w w1 \<Longrightarrow> R w1 w2 \<Longrightarrow> R w w2"
    and step: "\<And>x w y w1. P x \<Longrightarrow> f x w = (y, w1) \<Longrightarrow> R w w1"
  shows "each_in_turn f xs w = (ys, w') \<Longrightarrow> \<forall>x\<in>set xs. P x \<Longrightarrow> R w w'"
proof (induction xs arbitrary: w ys)
  case Nil
  then show ?case by (simp add: refl)
next
  case (Cons x xs)
  obtain y w1 where a: "f x w = (y, w1)" by (cases "f x w")
  obtain us where b: "each_in_turn f xs w1 = (us, w')"
    using Cons.prems(1) a by (auto split: prod.splits)
  from Cons.prems(2) have "P x" by simp
  from step [OF this a] Cons.IH [OF b] Cons.prems(2) show ?case by (auto intro: trans)
qed

section \<open>One batch\<close>

lemma start_case:
  "(case x of (functionName, _) \<Rightarrow> processAwsFunction_start this functionName) u = (y, u1)
     \<Longrightarrow> processAwsFunction_start this (fst x) u = (y, u1)"
  by (cases x) simp

lemma process_all_E:
  assumes "process_all this batch w = (res, w')"
  obtains started w0 fetched w1 settled where
    "each_in_turn (\<lambda>(functionName, _). processAwsFunction_start this functionName) batch w =
       (started, w0)"
    and "each_in_turn (processAwsFunction_resume this) started w0 = (fetched, w1)"
    and "each_in_turn (processAwsFunction_resume this) fetched w1 = (settled, w')"
    and "res = (case first_rejection fetched of
                  Some error \<Rightarrow> Inl error
                | None \<Rightarrow>
                    (case first_rejection settled of
                       Some error \<Rightarrow> Inl error
                     | None \<Rightarrow> Inr (settled_values settled)))"
  using assms unfolding process_all_def by (auto split: prod.splits)

lemma started_wf:
  assumes "each_in_turn (\<lambda>(functionName, _). processAwsFunction_start this functionName) batch w =
     (started, w0)"
  shows "\<forall>t\<in>set started. task_wf t"
proof (rule each_in_turn_all [where P = "\<lambda>_. True" and Q = task_wf, OF _ assms])
  show "\<forall>x\<in>set batch. True" by simp
next
  fix x :: "string \<times> 'c" and w :: "('a, 'b) world" and y w1
  assume "(case x of (functionName, _) \<Rightarrow> processAwsFunction_start this functionName) w = (y, w1)"
  then show "task_wf y" by (cases x) (auto dest: start_wf)
qed

lemma resumed_wf:
  "each_in_turn (processAwsFunction_resume this) ts w = (ts', w') \<Longrightarrow>
     \<forall>t\<in>set ts. task_wf t \<Longrightarrow> \<forall>t\<in>set ts'. task_wf t"
  using each_in_turn_all [where f = "processAwsFunction_resume this" and P = task_wf and Q = task_wf]
  by (blast dest: resume_wf)

lemma resumed_rank:
  "each_in_turn (processAwsFunction_resume this) ts w = (ts', w') \<Longrightarrow>
     \<forall>t\<in>set ts. task_rank t \<le> Suc k \<Longrightarrow> \<forall>t\<in>set ts'. task_rank t \<le> k"
  using each_in_turn_all [where f = "processAwsFunction_resume this"
      and P = "\<lambda>t. task_rank t \<le> Suc k" and Q = "\<lambda>t. task_rank t \<le> k"]
  by (fastforce dest: resume_rank)

lemma task_rank_le_2: "task_rank t \<le> Suc (Suc 0)"
  by (cases t) simp_all

lemma settled_all:
  "\<forall>t\<in>set ts. task_rank t \<le> 0 \<Longrightarrow> first_rejection ts = None \<Longrightarrow>
     ts = map (\<lambda>r. Settled (Inr r)) (settled_values ts)"
proof (induction ts)
  case Nil
  then show ?case by simp
next
  case (Cons t ts)
  from Cons.prems(1) obtain outcome where t: "t = Settled outcome" by (cases t) auto
  with Cons.prems(2) obtain r where r: "outcome = Inr r" by (cases outcome) auto
  with t Cons show ?case by simp
qed

text \<open>The relation of two worlds that every step of a batch keeps.\<close>

lemma process_all_frame:
  assumes "process_all this batch w = (res, w')"
  shows "serverless w' = serverless w \<and> objects w' = objects w
     \<and> (\<exists>cs. calls w' = calls w @ cs \<and> (\<forall>c\<in>set cs. \<not> shouldSkipFunction (snd (snd c))))"
proof -
  let ?R = "\<lambda>(u :: ('a, 'b) world) (v :: ('a, 'b) world).
      serverless v = serverless u \<and> objects v = objects u
      \<and> (\<exists>cs. calls v = calls u @ cs \<and> (\<forall>c\<in>set cs. \<not> shouldSkipFunction (snd (snd c))))"
  have refl: "?R u u" for u by simp
  have trans: "?R u v \<Longrightarrow> ?R v x \<Longrightarrow> ?R u x" for u v x
    by (elim conjE exE, intro conjI) (simp, simp, rule_tac x = "cs @ csa" in exI, auto)
  from assms obtain started w0 fetched w1 settled where
    s: "each_in_turn (\<lambda>(functionName, _). processAwsFunction_start this functionName) batch w =
       (started, w0)"
    and f: "each_in_turn (processAwsFunction_resume this) started w0 = (fetched, w1)"
    and d: "each_in_turn (processAwsFunction_resume this) fetched w1 = (settled, w')"
    by (rule process_all_E)
  have wf0: "\<forall>t\<in>set started. task_wf t" by (rule started_wf [OF s])
  have wf1: "\<forall>t\<in>set fetched. task_wf t" by (rule resumed_wf [OF f wf0])
  have step: "?R u u1" if "task_wf x" "processAwsFunction_resume this x u = (y, u1)" for x u y u1
    using resume_frame [OF that(2) that(1)] by simp
  have a: "?R w w0"
  proof (rule each_in_turn_rel [where R = ?R, OF refl trans _ s])
    fix x :: "string \<times> 'c" and u :: "('a, 'b) world" and y u1
    assume "(case x of (functionName, _) \<Rightarrow> processAwsFunction_start this functionName) u = (y, u1)"
    then have "processAwsFunction_start this (fst x) u = (y, u1)" by (cases x) simp
    from start_frame [OF this] show "?R u u1" by simp
  qed
  have b: "?R w0 w1"
    by (rule each_in_turn_rel_on [where R = ?R and P = task_wf, OF refl trans step f wf0])
  have c: "?R w1 w'"
    by (rule each_in_turn_rel_on [where R = ?R and P = task_wf, OF refl trans step d wf1])
  from trans [OF trans [OF a b] c] show ?thesis .
qed

lemma process_all_results:
  assumes "process_all this batch w = (Inr rs, w')"
  shows "length rs = length batch" and "\<forall>r\<in>set rs. result_ok r"
proof -
  from assms obtain started w0 fetched w1 settled where
    s: "each_in_turn (\<lambda>(functionName, _). processAwsFunction_start this functionName) batch w =
       (started, w0)"
    and f: "each_in_turn (processAwsFunction_resume this) started w0 = (fetched, w1)"
    and d: "each_in_turn (processAwsFunction_resume this) fetched w1 = (settled, w')"
    and r: "Inr rs = (case first_rejection fetched of
                  Some error \<Rightarrow> Inl error
                | None \<Rightarrow>
                    (case first_rejection settled of
                       Some error \<Rightarrow> Inl error
                     | None \<Rightarrow> Inr (settled_values settled)))"
    by (rule process_all_E)
  from r have none: "first_rejection settled = None" and rs: "rs = settled_values settled"
    by (auto split: option.splits)
  have wf0: "\<forall>t\<in>set started. task_wf t" by (rule started_wf [OF s])
  have wf1: "\<forall>t\<in>set fetched. task_wf t" by (rule resumed_wf [OF f wf0])
  have wf2: "\<forall>t\<in>set settled. task_wf t" by (rule resumed_wf [OF d wf1])
  have "\<forall>t\<in>set started. task_rank t \<le> Suc (Suc 0)" by (simp add: task_rank_le_2)
  from resumed_rank [OF f this] have "\<forall>t\<in>set fetched. task_rank t \<le> Suc 0" .
  from resumed_rank [OF d this] have "\<forall>t\<in>set settled. task_rank t \<le> 0" .
  from settled_all [OF this none] have eq: "settled = map (\<lambda>r. Settled (Inr r)) rs"
    by (simp add: rs)
  have "length settled = length batch"
    using each_in_turn_length [OF s] each_in_turn_length [OF f] each_in_turn_length [OF d]
    by simp
  with eq show "length rs = length batch" by (metis length_map)
  from wf2 eq show "\<forall>r\<in>set rs. result_ok r" by (metis (no_types, lifting) imageI list.set_map task_wf.simps(1))
qed

lemma first_rejection_clean:
  "\<forall>t\<in>set ts. task_clean t \<Longrightarrow> first_rejection ts = None"
proof (induction ts)
  case Nil
  then show ?case by simp
next
  case (Cons t ts)
  then show ?case
    by (cases t) (auto split: sum.splits elim: task_clean.elims)
qed

lemma process_all_total:
  assumes h: "rejects_with_messages (provider this)"
  shows "\<exists>rs w'. process_all this batch w = (Inr rs, w')"
proof -
  obtain res w' where p: "process_all this batch w = (res, w')"
    by (cases "process_all this batch w")
  from p obtain started w0 fetched w1 settled where
    s: "each_in_turn (\<lambda>(functionName, _). processAwsFunction_start this functionName) batch w =
       (started, w0)"
    and f: "each_in_turn (processAwsFunction_resume this) started w0 = (fetched, w1)"
    and d: "each_in_turn (processAwsFunction_resume this) fetched w1 = (settled, w')"
    and r: "res = (case first_rejection fetched of
                  Some error \<Rightarrow> Inl error
                | None \<Rightarrow>
                    (case first_rejection settled of
                       Some error \<Rightarrow> Inl error
                     | None \<Rightarrow> Inr (settled_values settled)))"
    by (rule process_all_E)
  have c0: "\<forall>t\<in>set started. task_clean t"
    by (rule each_in_turn_all [where P = "\<lambda>_. True" and Q = task_clean, OF _ s])
       (auto dest!: start_case dest: start_clean [OF h])
  have c1: "\<forall>t\<in>set fetched. task_clean t"
    using each_in_turn_all [where f = "processAwsFunction_resume this" and P = task_clean
        and Q = task_clean, OF _ f] c0
    by (blast dest: resume_clean [OF h])
  have c2: "\<forall>t\<in>set settled. task_clean t"
    using each_in_turn_all [where f = "processAwsFunction_resume this" and P = task_clean
        and Q = task_clean, OF _ d] c1
    by (blast dest: resume_clean [OF h])
  from r first_rejection_clean [OF c1] first_rejection_clean [OF c2] p show ?thesis by simp
qed

section \<open>The loop and the batches\<close>

lemma foldl_add_modifiedCount:
  "foldl (\<lambda>m result. m + modifiedCount result) mc rs = mc + sum_list (map modifiedCount rs)"
  by (induction rs arbitrary: mc) simp_all

lemma foldl_add_errorCount:
  "foldl (\<lambda>e result. e + errorCount result) ec rs = ec + sum_list (map errorCount rs)"
  by (induction rs arbitrary: ec) simp_all






text \<open>The two counters of the loop are the sums over the results it has seen.\<close>

lemma loop_results:
  "processAwsFunctionsInBatches_loop this es i mc ec w =
     (case all_batchResults this es i w of
        (Inl error, w') \<Rightarrow> (Inl error, w')
      | (Inr rs, w') \<Rightarrow>
          (Inr \<lparr>modifiedCount = mc + sum_list (map modifiedCount rs),
                errorCount = ec + sum_list (map errorCount rs)\<rparr>, w'))"
proof (induction this es i mc ec w rule: processAwsFunctionsInBatches_loop.induct)
  case (1 this es i mc ec w)
  show ?case
  proof (cases "i < length es")
    case False
    then show ?thesis
      by (subst processAwsFunctionsInBatches_loop.simps, subst all_batchResults.simps) simp
  next
    case True
    show ?thesis
      using True "1.IH"
      by (subst processAwsFunctionsInBatches_loop.simps, subst all_batchResults.simps)
         (auto simp: foldl_add_modifiedCount foldl_add_errorCount split: prod.splits sum.splits)
  qed
qed

lemma slice_length:
  "i < length es \<Longrightarrow>
     length (slice es i (i + AWS_CONCURRENCY_BATCH_SIZE))
       + (length es - (i + AWS_CONCURRENCY_BATCH_SIZE)) = length es - i"
  by (auto simp: slice_def AWS_CONCURRENCY_BATCH_SIZE_def)

lemma slice_drop:
  "slice es i (i + AWS_CONCURRENCY_BATCH_SIZE) @ drop (i + AWS_CONCURRENCY_BATCH_SIZE) es =
     drop i es"
  by (simp add: slice_def add.commute [of i] flip: drop_drop)

lemma all_batchResults_results:
  "all_batchResults this es i w = (Inr rs, w') \<Longrightarrow>
     length rs = length es - i \<and> (\<forall>r\<in>set rs. result_ok r)"
proof (induction this es i w arbitrary: rs rule: all_batchResults.induct)
  case (1 this es i w)
  show ?case
  proof (cases "i < length es")
    case False
    with "1.prems" show ?thesis by (subst (asm) all_batchResults.simps) simp
  next
    case True
    from "1.prems" True obtain batchResults w1 later where
      p: "process_all this (slice es i (i + AWS_CONCURRENCY_BATCH_SIZE)) w = (Inr batchResults, w1)"
      and l: "all_batchResults this es (i + AWS_CONCURRENCY_BATCH_SIZE) w1 = (Inr later, w')"
      and rs: "rs = batchResults @ later"
      by (subst (asm) all_batchResults.simps) (auto split: prod.splits sum.splits)
    from "1.IH" [OF True p [symmetric] refl l]
    have "length later = length es - (i + AWS_CONCURRENCY_BATCH_SIZE)"
      and "\<forall>r\<in>set later. result_ok r" by simp_all
    with process_all_results [OF p] slice_length [OF True] show ?thesis
      by (auto simp: rs)
  qed
qed

lemma all_batchResults_total:
  "rejects_with_messages (provider this) \<Longrightarrow> \<exists>rs w'. all_batchResults this es i w = (Inr rs, w')"
proof (induction this es i w rule: all_batchResults.induct)
  case (1 this es i w)
  show ?case
  proof (cases "i < length es")
    case False
    then show ?thesis by (subst all_batchResults.simps) simp
  next
    case True
    from process_all_total [OF "1.prems"] obtain batchResults w1 where
      p: "process_all this (slice es i (i + AWS_CONCURRENCY_BATCH_SIZE)) w = (Inr batchResults, w1)"
      by blast
    from "1.IH" [OF True p [symmetric] refl "1.prems"] obtain later w' where
      "all_batchResults this es (i + AWS_CONCURRENCY_BATCH_SIZE) w1 = (Inr later, w')"
      by blast
    with p True show ?thesis by (subst all_batchResults.simps) simp
  qed
qed

lemma all_batchResults_frame:
  "all_batchResults this es i w = (res, w') \<Longrightarrow>
     serverless w' = serverless w \<and> objects w' = objects w
     \<and> (\<exists>cs. calls w' = calls w @ cs \<and> (\<forall>c\<in>set cs. \<not> shouldSkipFunction (snd (snd c))))"
proof (induction this es i w arbitrary: res rule: all_batchResults.induct)
  case (1 this es i w)
  show ?case
  proof (cases "i < length es")
    case False
    with "1.prems" show ?thesis by (subst (asm) all_batchResults.simps) simp
  next
    case True
    obtain r1 w1 where
      p: "process_all this (slice es i (i + AWS_CONCURRENCY_BATCH_SIZE)) w = (r1, w1)"
      by (cases "process_all this (slice es i (i + AWS_CONCURRENCY_BATCH_SIZE)) w")
    from process_all_frame [OF p] obtain cs1 where
      f1: "serverless w1 = serverless w" "objects w1 = objects w" "calls w1 = calls w @ cs1"
        "\<forall>c\<in>set cs1. \<not> shouldSkipFunction (snd (snd c))"
      by blast
    show ?thesis
    proof (cases r1)
      case (Inl error)
      with "1.prems" True p have "w' = w1" by (subst (asm) all_batchResults.simps) simp
      with f1 show ?thesis by simp
    next
      case (Inr batchResults)
      obtain r2 w2 where
        l: "all_batchResults this es (i + AWS_CONCURRENCY_BATCH_SIZE) w1 = (r2, w2)"
        by (cases "all_batchResults this es (i + AWS_CONCURRENCY_BATCH_SIZE) w1")
      from "1.prems" True p Inr l have w2: "w' = w2"
        by (subst (asm) all_batchResults.simps) (auto split: sum.splits)
      from p Inr have p': "(Inr batchResults, w1) =
          process_all this (slice es i (i + AWS_CONCURRENCY_BATCH_SIZE)) w" by simp
      from "1.IH" [OF True p' refl l [unfolded w2 [symmetric]]] obtain cs2 where
        f2: "serverless w' = serverless w1" "objects w' = objects w1" "calls w' = calls w1 @ cs2"
          "\<forall>c\<in>set cs2. \<not> shouldSkipFunction (snd (snd c))"
        by auto
      have "calls w' = calls w @ (cs1 @ cs2)" using f1 f2 by simp
      moreover have "\<forall>c\<in>set (cs1 @ cs2). \<not> shouldSkipFunction (snd (snd c))"
        using f1 f2 by auto
      ultimately show ?thesis using f1 f2 by metis
    qed
  qed
qed

lemma loop_world:
  "snd (processAwsFunctionsInBatches_loop this es i mc ec w) = snd (all_batchResults this es i w)"
  by (simp add: loop_results split: prod.splits sum.splits)

lemma loop_frame:
  assumes "processAwsFunctionsInBatches_loop this es i mc ec w = (res, w')"
  shows "serverless w' = serverless w \<and> objects w' = objects w
     \<and> (\<exists>cs. calls w' = calls w @ cs \<and> (\<forall>c\<in>set cs. \<not> shouldSkipFunction (snd (snd c))))"
proof -
  obtain r where "all_batchResults this es i w = (r, w')"
    using assms loop_world [of this es i mc ec w]
    by (cases "all_batchResults this es i w") simp
  then show ?thesis by (rule all_batchResults_frame)
qed

section \<open>A run in which every function is skipped\<close>

lemma settled_resume:
  "\<forall>t\<in>set ts. task_rank t = 0 \<Longrightarrow> each_in_turn (processAwsFunction_resume this) ts u = (ts, u)"
proof (induction ts)
  case Nil
  then show ?case by simp
next
  case (Cons t ts)
  then obtain outcome where "t = Settled outcome" by (cases t) auto
  with Cons show ?case by simp
qed

lemma quiet_start:
  "\<forall>n. shouldSkipFunction (getFunctionName w n) \<Longrightarrow>
     \<exists>w0. each_in_turn (\<lambda>(functionName, _). processAwsFunction_start this functionName) batch w =
            (map (\<lambda>_. Settled (Inr \<lparr>modifiedCount = 0, errorCount = 0\<rparr>)) batch, w0)
         \<and> calls w0 = calls w \<and> remote w0 = remote w \<and> serverless w0 = serverless w
         \<and> objects w0 = objects w"
proof (induction batch arbitrary: w)
  case Nil
  then show ?case by simp
next
  case (Cons x xs)
  obtain n cfg where x: "x = (n, cfg)" by (cases x)
  let ?w1 = "log_info (''Skipping warmUp function: '' @ getFunctionName w n) w"
  from Cons.prems have s: "shouldSkipFunction (getFunctionName w n)" by blast
  from Cons.prems have "\<forall>n. shouldSkipFunction (getFunctionName ?w1 n)" by simp
  from Cons.IH [OF this] obtain w0 where
    "each_in_turn (\<lambda>(functionName, _). processAwsFunction_start this functionName) xs ?w1 =
       (map (\<lambda>_. Settled (Inr \<lparr>modifiedCount = 0, errorCount = 0\<rparr>)) xs, w0)"
    "calls w0 = calls w" "remote w0 = remote w" "serverless w0 = serverless w"
    "objects w0 = objects w"
    by auto
  moreover have "processAwsFunction_start this n w =
      (Settled (Inr \<lparr>modifiedCount = 0, errorCount = 0\<rparr>), ?w1)"
    using s by (simp add: processAwsFunction_start_def)
  ultimately show ?case unfolding x by simp
qed

lemma process_all_quiet:
  assumes "\<forall>n. shouldSkipFunction (getFunctionName w n)"
  shows "\<exists>w'. process_all this batch w =
            (Inr (map (\<lambda>_. \<lparr>modifiedCount = 0, errorCount = 0\<rparr>) batch), w')
         \<and> calls w' = calls w \<and> remote w' = remote w \<and> serverless w' = serverless w"
proof -
  let ?ts = "map (\<lambda>_. Settled (Inr \<lparr>modifiedCount = 0, errorCount = 0\<rparr>)) batch :: 'a task list"
  from quiet_start [OF assms, where this = this and batch = batch] obtain w0 where
    s: "each_in_turn (\<lambda>(functionName, _). processAwsFunction_start this functionName) batch w =
            (?ts, w0)"
    and f: "calls w0 = calls w" "remote w0 = remote w" "serverless w0 = serverless w"
    by blast
  have r: "each_in_turn (processAwsFunction_resume this) ?ts w0 = (?ts, w0)"
    by (rule settled_resume) simp
  have n: "first_rejection ?ts = None" by (induction batch) simp_all
  have v: "settled_values ?ts = map (\<lambda>_. \<lparr>modifiedCount = 0, errorCount = 0\<rparr>) batch"
    by (induction batch) simp_all
  show ?thesis unfolding process_all_def using s r n v f by simp
qed

lemma loop_quiet:
  "\<forall>n. shouldSkipFunction (getFunctionName w n) \<Longrightarrow>
     \<exists>w'. processAwsFunctionsInBatches_loop this es i mc ec w =
            (Inr \<lparr>modifiedCount = mc, errorCount = ec\<rparr>, w')
         \<and> calls w' = calls w \<and> remote w' = remote w \<and> serverless w' = serverless w"
proof (induction this es i mc ec w rule: processAwsFunctionsInBatches_loop.induct)
  case (1 this es i mc ec w)
  show ?case
  proof (cases "i < length es")
    case False
    then show ?thesis by (subst processAwsFunctionsInBatches_loop.simps) simp
  next
    case True
    let ?b = "slice es i (i + AWS_CONCURRENCY_BATCH_SIZE)"
    let ?rs = "map (\<lambda>_. \<lparr>modifiedCount = 0, errorCount = 0\<rparr>) ?b"
    from process_all_quiet [OF "1.prems", where this = this and batch = ?b] obtain w1 where
      p: "process_all this ?b w = (Inr ?rs, w1)"
      and f: "calls w1 = calls w" "remote w1 = remote w" "serverless w1 = serverless w"
      by blast
    have m: "foldl (\<lambda>m result. m + modifiedCount result) mc ?rs = mc"
      by (simp add: foldl_add_modifiedCount comp_def)
    have e: "foldl (\<lambda>e result. e + errorCount result) ec ?rs = ec"
      by (simp add: foldl_add_errorCount comp_def)
    from "1.prems" f have "\<forall>n. shouldSkipFunction (getFunctionName w1 n)"
      by (simp add: getFunctionName_def)
    from "1.IH" [OF True p [symmetric] refl this] f p True show ?thesis
      by (subst processAwsFunctionsInBatches_loop.simps) (simp add: m e)
  qed
qed

section \<open>The requests of a run\<close>











section \<open>Runs under the remote contract\<close>

lemma contract_get:
  assumes "remote_api_contract prov reserved"
    and "prov ''Lambda'' ''getFunctionConfiguration'' n s = (res, s')"
  shows "reserved s' m \<Longrightarrow> reserved s m"
    and "res = Inr config \<Longrightarrow> (config ''ReservedConcurrentExecutions'' \<noteq> None) = reserved s n"
proof -
  from assms(1) have
    "case prov ''Lambda'' ''getFunctionConfiguration'' n s of
          (Inl error, s') \<Rightarrow> (\<forall>m. reserved s' m \<longrightarrow> reserved s m)
        | (Inr config, s') \<Rightarrow>
            (config ''ReservedConcurrentExecutions'' \<noteq> None) = reserved s n
            \<and> (\<forall>m. reserved s' m \<longrightarrow> reserved s m)"
    unfolding remote_api_contract_def by (elim conjE allE)
  with assms(2) show "reserved s' m \<Longrightarrow> reserved s m"
    and "res = Inr config \<Longrightarrow> (config ''ReservedConcurrentExecutions'' \<noteq> None) = reserved s n"
    by (auto split: sum.splits)
qed

lemma contract_delete:
  assumes "remote_api_contract prov reserved"
    and "prov ''Lambda'' ''deleteFunctionConcurrency'' n s = (res, s')"
  shows "reserved s' m \<Longrightarrow> reserved s m"
    and "res = Inr response \<Longrightarrow> \<not> reserved s' n"
proof -
  from assms(1) have
    "case prov ''Lambda'' ''deleteFunctionConcurrency'' n s of
          (Inl error, s') \<Rightarrow> (\<forall>m. reserved s' m \<longrightarrow> reserved s m)
        | (Inr response, s') \<Rightarrow>
            \<not> reserved s' n \<and> (\<forall>m. reserved s' m \<longrightarrow> reserved s m)"
    unfolding remote_api_contract_def by (elim conjE allE)
  with assms(2) show "reserved s' m \<Longrightarrow> reserved s m"
    and "res = Inr response \<Longrightarrow> \<not> reserved s' n"
    by (auto split: sum.splits)
qed

lemma result_inv_mono:
  "result_inv before now a r \<Longrightarrow> (\<And>m. before m \<Longrightarrow> before' m) \<Longrightarrow> (\<And>m. now' m \<Longrightarrow> now m)
     \<Longrightarrow> result_inv before' now' a r"
  unfolding result_inv_def by blast

lemma task_inv_mono:
  "task_inv before now a t \<Longrightarrow> (\<And>m. now' m \<Longrightarrow> now m) \<Longrightarrow> task_inv before now' a t"
proof (induction before now a t rule: task_inv.induct)
  case (1 before now a r)
  then show ?case by (auto intro: result_inv_mono)
next
  case (2 before now a error)
  then show ?case by simp
next
  case (3 before now a functionName awsFunctionName response)
  then show ?case by (cases response) auto
next
  case (4 before now a functionName awsFunctionName response)
  then show ?case by (cases response) auto
qed

lemma catch_inv:
  assumes "processAwsFunction_catch functionName error u = (outcome, u1)"
  shows "task_inv before now a (Settled outcome)" and "remote u1 = remote u"
    and "serverless u1 = serverless u"
  using assms by (auto simp: processAwsFunction_catch_def result_inv_def split: sum.splits)

lemma start_inv:
  assumes c: "remote_api_contract (provider this) reserved"
    and s: "processAwsFunction_start this n u = (t, u1)"
    and m: "\<And>m. reserved (remote u) m \<Longrightarrow> before m"
  shows "task_inv before (reserved (remote u1)) (getFunctionName u n) t"
    and "reserved (remote u1) x \<Longrightarrow> reserved (remote u) x"
    and "serverless u1 = serverless u"
proof -
  let ?a = "getFunctionName u n"
  show "serverless u1 = serverless u" by (rule start_frame(1) [OF s])
  show "task_inv before (reserved (remote u1)) ?a t"
    and "reserved (remote u1) x \<Longrightarrow> reserved (remote u) x"
  proof (atomize (full), cases "shouldSkipFunction ?a")
    case True
    with s show "task_inv before (reserved (remote u1)) ?a t
        \<and> (reserved (remote u1) x \<longrightarrow> reserved (remote u) x)"
      by (auto simp: processAwsFunction_start_def result_inv_def)
  next
    case False
    obtain res s' where p: "provider this ''Lambda'' ''getFunctionConfiguration'' ?a (remote u) =
        (res, s')"
      by (cases "provider this ''Lambda'' ''getFunctionConfiguration'' ?a (remote u)")
    with s False have t: "t = AwaitingFetch n ?a res" and r: "remote u1 = s'"
      by (auto simp: processAwsFunction_start_def provider_request_def Let_def)
    note g = contract_get [OF c p]
    show "task_inv before (reserved (remote u1)) ?a t
        \<and> (reserved (remote u1) x \<longrightarrow> reserved (remote u) x)"
    proof (cases res)
      case (Inl error)
      with t r False g(1) show ?thesis by auto
    next
      case (Inr config)
      from g(2) [OF Inr] have e: "(config ''ReservedConcurrentExecutions'' \<noteq> None) = reserved (remote u) ?a" .
      with t r False g(1) Inr m show ?thesis by auto
    qed
  qed
qed

lemma resume_inv:
  assumes c: "remote_api_contract (provider this) reserved"
    and r: "processAwsFunction_resume this t u = (t', u1)"
    and i: "task_inv before (reserved (remote u)) a t"
  shows "task_inv before (reserved (remote u1)) a t'"
    and "reserved (remote u1) x \<Longrightarrow> reserved (remote u) x"
    and "serverless u1 = serverless u"
proof (atomize (full), cases t)
  case (Settled outcome)
  with r i show "task_inv before (reserved (remote u1)) a t'
      \<and> (reserved (remote u1) x \<longrightarrow> reserved (remote u) x) \<and> serverless u1 = serverless u"
    by auto
next
  case (AwaitingFetch functionName awsFunctionName response)
  show "task_inv before (reserved (remote u1)) a t'
      \<and> (reserved (remote u1) x \<longrightarrow> reserved (remote u) x) \<and> serverless u1 = serverless u"
  proof (cases response)
    case (Inl error)
    with r AwaitingFetch obtain outcome where
      o: "processAwsFunction_catch functionName error u = (outcome, u1)" and t': "t' = Settled outcome"
      by (auto split: prod.splits)
    from catch_inv(1) [OF o, where before = before and now = "reserved (remote u1)" and a = a]
      catch_inv(2,3) [OF o]
    show ?thesis by (simp add: t')
  next
    case (Inr config)
    show ?thesis
    proof (cases "config ''ReservedConcurrentExecutions'' \<noteq> None")
      case False
      with r i AwaitingFetch Inr show ?thesis by (auto simp: result_inv_def)
    next
      case True
      let ?u = "log_info (''Removing reserved concurrency from AWS for function: ''
                       @ awsFunctionName) u"
      obtain res s' where p: "provider this ''Lambda'' ''deleteFunctionConcurrency''
          awsFunctionName (remote u) = (res, s')"
        by (cases "provider this ''Lambda'' ''deleteFunctionConcurrency''
          awsFunctionName (remote u)")
      with r AwaitingFetch Inr True have t': "t' = AwaitingDelete functionName awsFunctionName res"
        and s': "remote u1 = s'" and sv: "serverless u1 = serverless u"
        by (auto simp: provider_request_def)
      note d = contract_delete [OF c p]
      from i AwaitingFetch Inr True have a: "awsFunctionName = a" "\<not> shouldSkipFunction a" "before a"
        by auto
      show ?thesis
      proof (cases res)
        case (Inl error)
        with t' s' sv a d(1) show ?thesis by auto
      next
        case (Inr answer)
        from d(2) [OF Inr] have "\<not> reserved s' awsFunctionName" .
        with t' s' sv a d(1) Inr show ?thesis by auto
      qed
    qed
  qed
next
  case (AwaitingDelete functionName awsFunctionName response)
  show "task_inv before (reserved (remote u1)) a t'
      \<and> (reserved (remote u1) x \<longrightarrow> reserved (remote u) x) \<and> serverless u1 = serverless u"
  proof (cases response)
    case (Inl error)
    with r AwaitingDelete obtain outcome where
      o: "processAwsFunction_catch functionName error u = (outcome, u1)" and t': "t' = Settled outcome"
      by (auto split: prod.splits)
    from catch_inv(1) [OF o, where before = before and now = "reserved (remote u1)" and a = a]
      catch_inv(2,3) [OF o]
    show ?thesis by (simp add: t')
  next
    case (Inr answer)
    with r i AwaitingDelete show ?thesis by (auto simp: result_inv_def)
  qed
qed

lemma process_all_inv:
  fixes this :: "('v, 'st) plugin"
  assumes c: "remote_api_contract (provider this) reserved"
    and p: "process_all this batch w = (Inr rs, w')"
  shows "list_all2 (result_inv (reserved (remote w)) (reserved (remote w')))
           (map (\<lambda>(n, _). getFunctionName w n) batch) rs"
    and "reserved (remote w') x \<Longrightarrow> reserved (remote w) x"
proof -
  let ?before = "reserved (remote w)"
  let ?ks = "map (\<lambda>(n, _). getFunctionName w n) batch"
  define R where "R = (\<lambda>(u :: ('v, 'st) world) (v :: ('v, 'st) world).
      serverless v = serverless u \<and> (\<forall>m. reserved (remote v) m \<longrightarrow> reserved (remote u) m))"
  define I where "I = (\<lambda>(u :: ('v, 'st) world) k (x :: string \<times> ref).
      k = getFunctionName u (fst x) \<and> (\<forall>m. reserved (remote u) m \<longrightarrow> ?before m))"
  define J where "J = (\<lambda>(u :: ('v, 'st) world) k (t :: 'v task).
      task_inv ?before (reserved (remote u)) k t \<and> (\<forall>m. reserved (remote u) m \<longrightarrow> ?before m))"
  have refl: "R u u" for u by (simp add: R_def)
  have trans: "R u v \<Longrightarrow> R v x \<Longrightarrow> R u x" for u v x by (simp add: R_def)
  have stableI: "R u v \<Longrightarrow> I u k x \<Longrightarrow> I v k x" for u v k x
    by (simp add: R_def I_def getFunctionName_def)
  have stableJ: "R u v \<Longrightarrow> J u k t \<Longrightarrow> J v k t" for u v k t
    using task_inv_mono [of ?before "reserved (remote u)" k t "reserved (remote v)"]
    unfolding R_def J_def by blast
  have step0: "J u1 k t \<and> R u u1"
    if "(case x of (functionName, _) \<Rightarrow> processAwsFunction_start this functionName) u = (t, u1)"
      and "I u k x" for x u t u1 k
  proof -
    from that(1) have s: "processAwsFunction_start this (fst x) u = (t, u1)" by (rule start_case)
    from that(2) have m: "\<And>m. reserved (remote u) m \<Longrightarrow> ?before m" by (simp add: I_def)
    from start_inv [where before = ?before, OF c s m] that(2) show ?thesis
      unfolding R_def I_def J_def by blast
  qed
  have step: "J u1 k t' \<and> R u u1"
    if "processAwsFunction_resume this t u = (t', u1)" and "J u k t" for t u t' u1 k
  proof -
    from that(2) have i: "task_inv ?before (reserved (remote u)) k t" by (simp add: J_def)
    from resume_inv [where before = ?before, OF c that(1) i] that(2) show ?thesis
      unfolding R_def J_def by blast
  qed
  from p obtain started w0 fetched w1 settled where
    s: "each_in_turn (\<lambda>(functionName, _). processAwsFunction_start this functionName) batch w =
       (started, w0)"
    and f: "each_in_turn (processAwsFunction_resume this) started w0 = (fetched, w1)"
    and d: "each_in_turn (processAwsFunction_resume this) fetched w1 = (settled, w')"
    and r: "Inr rs = (case first_rejection fetched of
                  Some error \<Rightarrow> Inl error
                | None \<Rightarrow>
                    (case first_rejection settled of
                       Some error \<Rightarrow> Inl error
                     | None \<Rightarrow> Inr (settled_values settled)))"
    by (rule process_all_E)
  have k0: "list_all2 (I w) ?ks batch"
    by (simp add: I_def list_all2_map1 list_all2_same case_prod_beta)
  have "list_all2 (J w0) ?ks started \<and> R w w0"
    by (rule each_in_turn_inv [where R = R and I = I and J = J, OF refl trans stableI stableJ step0 s k0])
  then have j0: "list_all2 (J w0) ?ks started" and r0: "R w w0" by simp_all
  have "list_all2 (J w1) ?ks fetched \<and> R w0 w1"
    by (rule each_in_turn_inv [where R = R and I = J and J = J, OF refl trans stableJ stableJ step f j0])
  then have j1: "list_all2 (J w1) ?ks fetched" and r1: "R w0 w1" by simp_all
  have "list_all2 (J w') ?ks settled \<and> R w1 w'"
    by (rule each_in_turn_inv [where R = R and I = J and J = J, OF refl trans stableJ stableJ step d j1])
  then have j2: "list_all2 (J w') ?ks settled" and r2: "R w1 w'" by simp_all
  from trans [OF trans [OF r0 r1] r2] show "reserved (remote w') x \<Longrightarrow> reserved (remote w) x"
    by (simp add: R_def)
  from r have none: "first_rejection settled = None" and rs: "rs = settled_values settled"
    by (auto split: option.splits)
  have "\<forall>t\<in>set started. task_rank t \<le> Suc (Suc 0)" by (simp add: task_rank_le_2)
  from resumed_rank [OF f this] have "\<forall>t\<in>set fetched. task_rank t \<le> Suc 0" .
  from resumed_rank [OF d this] have "\<forall>t\<in>set settled. task_rank t \<le> 0" .
  from settled_all [OF this none] have eq: "settled = map (\<lambda>r. Settled (Inr r)) rs"
    by (simp add: rs)
  from j2 have "list_all2 (\<lambda>k r. J w' k (Settled (Inr r))) ?ks rs"
    by (subst (asm) eq) (simp only: list_all2_map2)
  then show "list_all2 (result_inv ?before (reserved (remote w'))) ?ks rs"
    by (rule list_all2_mono) (simp add: J_def)
qed

lemma all_batchResults_inv:
  assumes c: "remote_api_contract (provider this) reserved"
  shows "all_batchResults this es i w = (Inr rs, w') \<Longrightarrow>
     list_all2 (result_inv (reserved (remote w)) (reserved (remote w')))
        (map (\<lambda>(n, _). getFunctionName w n) (drop i es)) rs
     \<and> (\<forall>m. reserved (remote w') m \<longrightarrow> reserved (remote w) m)"
  using c
proof (induction this es i w arbitrary: rs rule: all_batchResults.induct)
  case (1 this es i w)
  show ?case
  proof (cases "i < length es")
    case False
    with "1.prems" show ?thesis by (subst (asm) all_batchResults.simps) simp
  next
    case True
    let ?b = "slice es i (i + AWS_CONCURRENCY_BATCH_SIZE)"
    from "1.prems" True obtain batchResults w1 later where
      p: "process_all this ?b w = (Inr batchResults, w1)"
      and l: "all_batchResults this es (i + AWS_CONCURRENCY_BATCH_SIZE) w1 = (Inr later, w')"
      and rs: "rs = batchResults @ later"
      by (subst (asm) all_batchResults.simps) (auto split: prod.splits sum.splits)
    note c = "1.prems"(2)
    from process_all_inv [OF c p] have
      a1: "list_all2 (result_inv (reserved (remote w)) (reserved (remote w1)))
           (map (\<lambda>(n, _). getFunctionName w n) ?b) batchResults"
      and m1: "\<And>x. reserved (remote w1) x \<Longrightarrow> reserved (remote w) x" by blast+
    from "1.IH" [OF True p [symmetric] refl l c] have
      a2: "list_all2 (result_inv (reserved (remote w1)) (reserved (remote w')))
           (map (\<lambda>(n, _). getFunctionName w1 n) (drop (i + AWS_CONCURRENCY_BATCH_SIZE) es)) later"
      and m2: "\<And>x. reserved (remote w') x \<Longrightarrow> reserved (remote w1) x" by blast+
    from process_all_frame [OF p] have "serverless w1 = serverless w" by simp
    then have gn: "getFunctionName w1 = getFunctionName w"
      by (intro ext) (simp add: getFunctionName_def)
    have b1: "list_all2 (result_inv (reserved (remote w)) (reserved (remote w')))
           (map (\<lambda>(n, _). getFunctionName w n) ?b) batchResults"
      using a1 by (rule list_all2_mono) (erule result_inv_mono, simp, erule m2)
    have b2: "list_all2 (result_inv (reserved (remote w)) (reserved (remote w')))
           (map (\<lambda>(n, _). getFunctionName w n) (drop (i + AWS_CONCURRENCY_BATCH_SIZE) es)) later"
      using a2 unfolding gn by (rule list_all2_mono) (erule result_inv_mono, erule m1, simp)
    from list_all2_appendI [OF b1 b2] have
      "list_all2 (result_inv (reserved (remote w)) (reserved (remote w')))
        (map (\<lambda>(n, _). getFunctionName w n) (drop i es)) rs"
      by (simp add: rs slice_drop flip: map_append)
    with m1 m2 show ?thesis by blast
  qed
qed

lemma sum_list_pointwise:
  "list_all2 (\<lambda>a b. f a \<le> (g b :: nat)) xs ys \<Longrightarrow> sum_list (map f xs) \<le> sum_list (map g ys)"
  by (induction rule: list_all2_induct) auto

lemma second_run_bound:
  assumes c: "remote_api_contract (provider this) reserved"
    and run1: "all_batchResults this es 0 w = (Inr rs1, w1)"
    and run2: "all_batchResults this es 0 w1 = (Inr rs2, w2)"
  shows "sum_list (map modifiedCount rs2) \<le> sum_list (map errorCount rs1)"
proof -
  let ?ks = "map (\<lambda>(n, _). getFunctionName w n) es"
  from all_batchResults_frame [OF run1] have "serverless w1 = serverless w" by simp
  then have gn: "getFunctionName w1 = getFunctionName w"
    by (intro ext) (simp add: getFunctionName_def)
  from all_batchResults_inv [OF c run1] have
    i1: "list_all2 (result_inv (reserved (remote w)) (reserved (remote w1))) ?ks rs1" by simp
  from all_batchResults_inv [OF c run2] have
    i2: "list_all2 (result_inv (reserved (remote w1)) (reserved (remote w2))) ?ks rs2"
    by (simp add: gn)
  from all_batchResults_results [OF run1] have ok1: "\<forall>r\<in>set rs1. result_ok r" by simp
  from all_batchResults_results [OF run2] have ok2: "\<forall>r\<in>set rs2. result_ok r" by simp
  have "list_all2 (\<lambda>r2 r1. modifiedCount r2 \<le> errorCount r1) rs2 rs1"
  proof (rule list_all2_all_nthI)
    from i1 i2 show "length rs2 = length rs1" by (auto dest!: list_all2_lengthD)
  next
    fix k assume k: "k < length rs2"
    with i1 i2 have k1: "k < length rs1" and kk: "k < length ?ks"
      by (auto dest!: list_all2_lengthD)
    from i1 kk k1 have a: "result_inv (reserved (remote w)) (reserved (remote w1)) (?ks ! k) (rs1 ! k)"
      by (simp only: list_all2_conv_all_nth)
    from i2 kk k have b: "result_inv (reserved (remote w1)) (reserved (remote w2)) (?ks ! k) (rs2 ! k)"
      by (simp only: list_all2_conv_all_nth)
    from ok1 k1 have o1: "result_ok (rs1 ! k)" by simp
    from ok2 k have o2: "result_ok (rs2 ! k)" by simp
    from a b o1 o2 show "modifiedCount (rs2 ! k) \<le> errorCount (rs1 ! k)"
      unfolding result_inv_def result_ok_def by auto
  qed
  then show ?thesis by (rule sum_list_pointwise)
qed

section \<open>The descriptor pass\<close>

lemma card_present_insert:
  assumes "finite S" and "P r"
  shows "card {x \<in> insert r S. P x} = Suc (card {x \<in> S. x \<noteq> r \<and> P x})"
proof -
  have "{x \<in> insert r S. P x} = insert r {x \<in> S. x \<noteq> r \<and> P x}" using assms(2) by auto
  moreover have "finite {x \<in> S. x \<noteq> r \<and> P x}" using assms(1) by simp
  ultimately show ?thesis by simp
qed


lemma forEach_effect:
  "processServerlessConfigFunctions_forEach fns mc w = (mc', w') \<Longrightarrow>
     objects w' =
       (\<lambda>r. if r \<in> snd ` set fns then (objects w r)(''reservedConcurrency'' := None)
             else objects w r)
     \<and> mc' = mc + card {r \<in> snd ` set fns. objects w r ''reservedConcurrency'' \<noteq> None}
     \<and> serverless w' = serverless w \<and> remote w' = remote w \<and> calls w' = calls w
     \<and> length (logged w') = length (logged w) + (mc' - mc)"
proof (induction fns arbitrary: mc w)
  case Nil
  then show ?case by simp
next
  case (Cons x fns)
  obtain n r where x: "x = (n, r)" by (cases x)
  let ?S = "snd ` set fns"
  show ?case
  proof (cases "objects w r ''reservedConcurrency'' \<noteq> None")
    case False
    with Cons.prems have "processServerlessConfigFunctions_forEach fns mc w = (mc', w')"
      by (simp add: x removeConcurrencyFromFunction_def)
    from Cons.IH [OF this] have
      ih: "objects w' =
       (\<lambda>r. if r \<in> ?S then (objects w r)(''reservedConcurrency'' := None) else objects w r)"
      "mc' = mc + card {r \<in> ?S. objects w r ''reservedConcurrency'' \<noteq> None}"
      "serverless w' = serverless w" "remote w' = remote w" "calls w' = calls w"
      "length (logged w') = length (logged w) + (mc' - mc)"
      by simp_all
    from False have idem: "(objects w r)(''reservedConcurrency'' := None) = objects w r"
      by (simp add: fun_upd_idem)
    have o: "objects w' =
       (\<lambda>r'. if r' \<in> snd ` set (x # fns) then (objects w r')(''reservedConcurrency'' := None)
             else objects w r')"
      unfolding ih(1) using idem by (auto simp: x fun_eq_iff)
    have "{r' \<in> snd ` set (x # fns). objects w r' ''reservedConcurrency'' \<noteq> None} =
        {r' \<in> ?S. objects w r' ''reservedConcurrency'' \<noteq> None}"
      using False by (auto simp: x)
    with o ih show ?thesis by simp
  next
    case True
    let ?w1 = "(log_info (''Removing reserved concurrency from Serverless config for function: ''
            @ n) w)
           \<lparr>objects := (objects w)(r := (objects w r)(''reservedConcurrency'' := None))\<rparr>"
    from True Cons.prems have "processServerlessConfigFunctions_forEach fns (mc + 1) ?w1 = (mc', w')"
      by (simp add: x removeConcurrencyFromFunction_def)
    from Cons.IH [OF this] have
      ih: "objects w' =
       (\<lambda>r'. if r' \<in> ?S then (objects ?w1 r')(''reservedConcurrency'' := None) else objects ?w1 r')"
      "mc' = mc + 1 + card {r' \<in> ?S. objects ?w1 r' ''reservedConcurrency'' \<noteq> None}"
      "serverless w' = serverless w" "remote w' = remote w" "calls w' = calls w"
      "length (logged w') = length (logged ?w1) + (mc' - (mc + 1))"
      by simp_all
    have o: "objects w' =
       (\<lambda>r'. if r' \<in> snd ` set (x # fns) then (objects w r')(''reservedConcurrency'' := None)
             else objects w r')"
      unfolding ih(1) by (auto simp: x fun_eq_iff)
    have "{r' \<in> ?S. objects ?w1 r' ''reservedConcurrency'' \<noteq> None} =
        {r' \<in> ?S. r' \<noteq> r \<and> objects w r' ''reservedConcurrency'' \<noteq> None}"
      by auto
    moreover have "card {r' \<in> snd ` set (x # fns). objects w r' ''reservedConcurrency'' \<noteq> None} =
        Suc (card {r' \<in> ?S. r' \<noteq> r \<and> objects w r' ''reservedConcurrency'' \<noteq> None})"
      using card_present_insert [of ?S "\<lambda>r'. objects w r' ''reservedConcurrency'' \<noteq> None" r] True
      by (simp add: x)
    ultimately have c: "mc' = mc + card {r' \<in> snd ` set (x # fns).
        objects w r' ''reservedConcurrency'' \<noteq> None}"
      using ih(2) by simp
    have "length (logged w') = length (logged w) + (mc' - mc)"
      using ih(6) ih(2) by simp
    with o c ih(3-5) show ?thesis by simp
  qed
qed

lemma index_forEach_effect:
  "removeReservedConcurrencyFromSLS_index_forEach fns mc w = (mc', w') \<Longrightarrow>
     objects w' =
       (\<lambda>r. if r \<in> snd ` set fns then (objects w r)(''reservedConcurrency'' := None)
             else objects w r)
     \<and> mc' = mc + card {r \<in> snd ` set fns. objects w r ''reservedConcurrency'' \<noteq> None}
     \<and> serverless w' = serverless w \<and> remote w' = remote w \<and> calls w' = calls w
     \<and> logged w' = logged w"
proof (induction fns arbitrary: mc w)
  case Nil
  then show ?case by simp
next
  case (Cons x fns)
  obtain n r where x: "x = (n, r)" by (cases x)
  let ?S = "snd ` set fns"
  show ?case
  proof (cases "objects w r ''reservedConcurrency'' \<noteq> None")
    case False
    with Cons.prems have "removeReservedConcurrencyFromSLS_index_forEach fns mc w = (mc', w')"
      by (simp add: x)
    from Cons.IH [OF this] have
      ih: "objects w' =
       (\<lambda>r. if r \<in> ?S then (objects w r)(''reservedConcurrency'' := None) else objects w r)"
      "mc' = mc + card {r \<in> ?S. objects w r ''reservedConcurrency'' \<noteq> None}"
      "serverless w' = serverless w" "remote w' = remote w" "calls w' = calls w"
      "logged w' = logged w"
      by simp_all
    from False have idem: "(objects w r)(''reservedConcurrency'' := None) = objects w r"
      by (simp add: fun_upd_idem)
    have o: "objects w' =
       (\<lambda>r'. if r' \<in> snd ` set (x # fns) then (objects w r')(''reservedConcurrency'' := None)
             else objects w r')"
      unfolding ih(1) using idem by (auto simp: x fun_eq_iff)
    have "{r' \<in> snd ` set (x # fns). objects w r' ''reservedConcurrency'' \<noteq> None} =
        {r' \<in> ?S. objects w r' ''reservedConcurrency'' \<noteq> None}"
      using False by (auto simp: x)
    with o ih show ?thesis by simp
  next
    case True
    let ?w1 = "w\<lparr>objects := (objects w)(r := (objects w r)(''reservedConcurrency'' := None))\<rparr>"
    from True Cons.prems have
      "removeReservedConcurrencyFromSLS_index_forEach fns (mc + 1) ?w1 = (mc', w')"
      by (simp add: x)
    from Cons.IH [OF this] have
      ih: "objects w' =
       (\<lambda>r'. if r' \<in> ?S then (objects ?w1 r')(''reservedConcurrency'' := None) else objects ?w1 r')"
      "mc' = mc + 1 + card {r' \<in> ?S. objects ?w1 r' ''reservedConcurrency'' \<noteq> None}"
      "serverless w' = serverless w" "remote w' = remote w" "calls w' = calls w"
      "logged w' = logged w"
      by simp_all
    have o: "objects w' =
       (\<lambda>r'. if r' \<in> snd ` set (x # fns) then (objects w r')(''reservedConcurrency'' := None)
             else objects w r')"
      unfolding ih(1) by (auto simp: x fun_eq_iff)
    have "{r' \<in> ?S. objects ?w1 r' ''reservedConcurrency'' \<noteq> None} =
        {r' \<in> ?S. r' \<noteq> r \<and> objects w r' ''reservedConcurrency'' \<noteq> None}"
      by auto
    moreover have "card {r' \<in> snd ` set (x # fns). objects w r' ''reservedConcurrency'' \<noteq> None} =
        Suc (card {r' \<in> ?S. r' \<noteq> r \<and> objects w r' ''reservedConcurrency'' \<noteq> None})"
      using card_present_insert [of ?S "\<lambda>r'. objects w r' ''reservedConcurrency'' \<noteq> None" r] True
      by (simp add: x)
    ultimately have c: "mc' = mc + card {r' \<in> snd ` set (x # fns).
        objects w r' ''reservedConcurrency'' \<noteq> None}"
      using ih(2) by simp
    with o ih(3-6) show ?thesis by simp
  qed
qed

lemma logServerlessConfigResult_frame [simp]:
  "serverless (logServerlessConfigResult r w) = serverless w"
  "objects (logServerlessConfigResult r w) = objects w"
  "remote (logServerlessConfigResult r w) = remote w"
  "calls (logServerlessConfigResult r w) = calls w"
  by (simp_all add: logServerlessConfigResult_def)

lemma processServerlessConfigFunctions_effect:
  assumes "processServerlessConfigFunctions fns w = (result, w')"
  shows "objects w' =
       (\<lambda>r. if r \<in> snd ` set fns then (objects w r)(''reservedConcurrency'' := None)
             else objects w r)"
    and "modifiedCount result =
       card {r \<in> snd ` set fns. objects w r ''reservedConcurrency'' \<noteq> None}"
    and "errorCount result = 0"
    and "serverless w' = serverless w" and "remote w' = remote w" and "calls w' = calls w"
    and "length (logged w') = length (logged w) + modifiedCount result"
proof -
  obtain mc where f: "processServerlessConfigFunctions_forEach fns 0 w = (mc, w')"
    and r: "result = \<lparr>modifiedCount = mc, errorCount = 0\<rparr>"
    using assms by (auto simp: processServerlessConfigFunctions_def split: prod.splits)
  from forEach_effect [OF f] r show "objects w' =
       (\<lambda>r. if r \<in> snd ` set fns then (objects w r)(''reservedConcurrency'' := None)
             else objects w r)"
    and "modifiedCount result =
       card {r \<in> snd ` set fns. objects w r ''reservedConcurrency'' \<noteq> None}"
    and "errorCount result = 0"
    and "serverless w' = serverless w" and "remote w' = remote w" and "calls w' = calls w"
    and "length (logged w') = length (logged w) + modifiedCount result"
    by simp_all
qed

text \<open>The hooks of the two files: what they leave of the world.\<close>

lemma removeReservedConcurrencyFromSLS_eq:
  "fst (removeReservedConcurrencyFromSLS this elapsed w) = Inr ()
   \<and> serverless (snd (removeReservedConcurrencyFromSLS this elapsed w)) = serverless w
   \<and> objects (snd (removeReservedConcurrencyFromSLS this elapsed w)) =
       objects (snd (processServerlessConfigFunctions
         (case service_functions (serverless w) of None \<Rightarrow> [] | Some fns \<Rightarrow> fns) w))
   \<and> remote (snd (removeReservedConcurrencyFromSLS this elapsed w)) = remote w
   \<and> calls (snd (removeReservedConcurrencyFromSLS this elapsed w)) = calls w"
proof -
  let ?fns = "case service_functions (serverless w) of None \<Rightarrow> [] | Some fns \<Rightarrow> fns"
  let ?w0 = "log_info (''Starting: '' @ ''Remove reserved concurrency from Serverless config'') w"
  obtain result w1 where p: "processServerlessConfigFunctions ?fns ?w0 = (result, w1)"
    by (cases "processServerlessConfigFunctions ?fns ?w0")
  obtain result' w1' where p': "processServerlessConfigFunctions ?fns w = (result', w1')"
    by (cases "processServerlessConfigFunctions ?fns w")
  note e = processServerlessConfigFunctions_effect [OF p]
  note e' = processServerlessConfigFunctions_effect [OF p']
  from e(1) e'(1) have "objects w1 = objects w1'" by (simp cong: if_cong)
  with p p' e(4-6) show ?thesis
    by (simp add: removeReservedConcurrencyFromSLS_def measureExecutionTime_def)
qed

lemma removeReservedConcurrencyFromSLS_index_eq:
  "fst (removeReservedConcurrencyFromSLS_index this elapsed w) = Inr ()
   \<and> serverless (snd (removeReservedConcurrencyFromSLS_index this elapsed w)) = serverless w
   \<and> objects (snd (removeReservedConcurrencyFromSLS_index this elapsed w)) =
       objects (snd (processServerlessConfigFunctions
         (case service_functions (serverless w) of None \<Rightarrow> [] | Some fns \<Rightarrow> fns) w))
   \<and> remote (snd (removeReservedConcurrencyFromSLS_index this elapsed w)) = remote w
   \<and> calls (snd (removeReservedConcurrencyFromSLS_index this elapsed w)) = calls w"
proof -
  let ?fns = "case service_functions (serverless w) of None \<Rightarrow> [] | Some fns \<Rightarrow> fns"
  let ?w0 = "log_info (''Starting: '' @ ''Remove reserved concurrency from Serverless config'') w"
  obtain mc w1 where p: "removeReservedConcurrencyFromSLS_index_forEach ?fns 0 ?w0 = (mc, w1)"
    by (cases "removeReservedConcurrencyFromSLS_index_forEach ?fns 0 ?w0")
  obtain result' w1' where p': "processServerlessConfigFunctions ?fns w = (result', w1')"
    by (cases "processServerlessConfigFunctions ?fns w")
  note e = index_forEach_effect [OF p]
  note e' = processServerlessConfigFunctions_effect [OF p']
  from e e'(1) have "objects w1 = objects w1'" by (simp cong: if_cong)
  with p p' e show ?thesis
    by (simp add: removeReservedConcurrencyFromSLS_index_def measureExecutionTime_def)
qed

section \<open>Facts of the examples\<close>

lemma lambda_sim_contract: "remote_api_contract lambda_sim has_setting"
  unfolding remote_api_contract_def
  by (auto simp: lambda_sim_def has_setting_def split: option.splits)

lemma lambda_sim_rejects: "rejects_with_messages lambda_sim"
  unfolding rejects_with_messages_def
  by (auto simp: lambda_sim_def split: option.splits if_splits)

lemmas eval_defs = processAwsFunction_def processAwsFunction_try_def
  checkAndRemoveReservedConcurrency_def processAwsFunction_catch_def read_message_def
  processAwsFunction_start_def process_all_def
  provider_request_def getFunctionName_def
  shouldSkipFunction_def WARMUP_FUNCTION_IDENTIFIER_def lambda_sim_def lambda_sim_undefined_def
  log_info_def log_error_def
  example_plugin_def example_plugin_undefined_def example_world_def Let_def

lemmas batch_eval = eval_defs processAwsFunctionsInBatches_def
  processAwsFunctionsInBatches_loop.simps slice_def AWS_CONCURRENCY_BATCH_SIZE_def
  example_entries7_def

lemmas sls_eval = processServerlessConfigFunctions_def removeConcurrencyFromFunction_def
  example_functions_def example_objects_def example_world_def log_info_def field_present_def

section \<open>Further facts of the remote pass\<close>



lemma counts_as_filters:
  assumes "\<forall>r\<in>set rs. result_ok r"
  shows "sum_list (map modifiedCount rs) =
           length (filter (\<lambda>r. r = \<lparr>modifiedCount = 1, errorCount = 0\<rparr>) rs)
     \<and> sum_list (map errorCount rs) =
           length (filter (\<lambda>r. r = \<lparr>modifiedCount = 0, errorCount = 1\<rparr>) rs)
     \<and> length (filter (\<lambda>r. r = \<lparr>modifiedCount = 1, errorCount = 0\<rparr>) rs)
         + length (filter (\<lambda>r. r = \<lparr>modifiedCount = 0, errorCount = 1\<rparr>) rs)
         + length (filter (\<lambda>r. r = \<lparr>modifiedCount = 0, errorCount = 0\<rparr>) rs) = length rs"
  using assms by (induction rs) (auto simp: result_ok_def)

lemma logAwsResult_frame [simp]:
  "serverless (logAwsResult r w) = serverless w"
  "objects (logAwsResult r w) = objects w"
  "remote (logAwsResult r w) = remote w"
  "calls (logAwsResult r w) = calls w"
  by (simp_all add: logAwsResult_def Let_def)

lemma sublist_getFunctionName:
  assumes "sublist m (service (serverless w)) \<or> sublist m (stage (serverless w))"
  shows "sublist m (getFunctionName w n)"
proof -
  from assms obtain ps ss where
    "service (serverless w) = ps @ m @ ss \<or> stage (serverless w) = ps @ m @ ss"
    unfolding sublist_def by blast
  then have "getFunctionName w n = ps @ m @ (ss @ ''-'' @ stage (serverless w) @ ''-'' @ n)
      \<or> getFunctionName w n = (service (serverless w) @ ''-'' @ ps) @ m @ (ss @ ''-'' @ n)"
    by (auto simp: getFunctionName_def)
  then show ?thesis unfolding sublist_def by blast
qed

text \<open>What a bulk run gives, by its results.\<close>

lemma run_results:
  "processAwsFunctionsInBatches this es w =
     (case all_batchResults this es 0 w of
        (Inl error, w') \<Rightarrow> (Inl error, w')
      | (Inr rs, w') \<Rightarrow>
          (Inr \<lparr>modifiedCount = sum_list (map modifiedCount rs),
                errorCount = sum_list (map errorCount rs)\<rparr>, w'))"
  by (simp add: processAwsFunctionsInBatches_def loop_results split: prod.splits sum.splits)

lemma run_resolved:
  assumes "processAwsFunctionsInBatches this es w = (Inr agg, w')"
  obtains rs where "all_batchResults this es 0 w = (Inr rs, w')"
    and "agg = \<lparr>modifiedCount = sum_list (map modifiedCount rs),
                errorCount = sum_list (map errorCount rs)\<rparr>"
  using assms unfolding run_results by (auto split: prod.splits sum.splits)

section \<open>Properties of the plugin\<close>

text \<open>
  C1. For every stage string, the classifier returns true exactly when the lower-cased
  stage is \<open>dev\<close>, \<open>development\<close> or \<open>feature\<close>, or starts with \<open>feature-\<close>. Both
  files classify alike. The classifier is a function of the string alone, defined on
  every string.
\<close>

theorem C1_stage_classifier:
  "(isDevelopmentStage stg \<longleftrightarrow>
      toLowerCase stg = ''dev'' \<or> toLowerCase stg = ''development''
      \<or> toLowerCase stg = ''feature'' \<or> prefix ''feature-'' (toLowerCase stg))
   \<and> isDevelopmentStage_index stg = isDevelopmentStage stg"
  by (auto simp add: isDevelopmentStage_def isDevelopmentStage_index_def Let_def
      member_DEV_STAGES' startsWith_prefix)

theorem C1_stage_classifier_witness:
  "isDevelopmentStage ''Feature-XYZ'' \<and> isDevelopmentStage ''DEV''
   \<and> isDevelopmentStage ''feature'' \<and> isDevelopmentStage_index ''Development''
   \<and> \<not> isDevelopmentStage ''production'' \<and> \<not> isDevelopmentStage ''feature_x''
   \<and> \<not> isDevelopmentStage ''devel'' \<and> \<not> isDevelopmentStage_index ''''"
  using C1_stage_classifier [of "''Feature-XYZ''"] C1_stage_classifier [of "''DEV''"]
    C1_stage_classifier [of "''feature''"] C1_stage_classifier [of "''Development''"]
    C1_stage_classifier [of "''production''"] C1_stage_classifier [of "''feature_x''"]
    C1_stage_classifier [of "''devel''"] C1_stage_classifier [of "''''"]
  by (simp add: toLowerCase_def toLowerCaseChar_def)




text \<open>
  C3, amended. Under the contract of the remote API, a second bulk run that starts in the
  world the first one left modifies at most as many functions as the first run counted
  errors; after a first run without errors it modifies none.
\<close>

theorem C3_second_run_bound:
  assumes c: "remote_api_contract (provider this) reserved"
    and r1: "processAwsFunctionsInBatches this entries w = (Inr first, w1)"
    and r2: "processAwsFunctionsInBatches this entries w1 = (Inr second, w2)"
  shows "modifiedCount second \<le> errorCount first
     \<and> (errorCount first = 0 \<longrightarrow> modifiedCount second = 0)"
proof -
  from r1 obtain rs1 where p1: "all_batchResults this entries 0 w = (Inr rs1, w1)"
    and f: "first = \<lparr>modifiedCount = sum_list (map modifiedCount rs1),
                     errorCount = sum_list (map errorCount rs1)\<rparr>"
    by (rule run_resolved)
  from r2 obtain rs2 where p2: "all_batchResults this entries 0 w1 = (Inr rs2, w2)"
    and g: "second = \<lparr>modifiedCount = sum_list (map modifiedCount rs2),
                      errorCount = sum_list (map errorCount rs2)\<rparr>"
    by (rule run_resolved)
  from second_run_bound [OF c p1 p2] have "modifiedCount second \<le> errorCount first"
    by (simp add: f g)
  then show ?thesis by simp
qed

text \<open>
  C3 as stated fails after a first run with a caught failure: the fetch of the first run
  is rejected, the reservation stays, and the second run, with no change in between,
  removes it and reports one modification.
\<close>

theorem C3_counterexample:
  "remote_api_contract (provider example_plugin) has_setting
   \<and> fst (processAwsFunctionsInBatches example_plugin [(''hello'', 0)]
        (example_world ''svc'' ''dev'' [(''hello'', 0)] []
           [(''svc-dev-hello'', 5)] [(''svc-dev-hello'', ''Rate exceeded'')])) =
       Inr \<lparr>modifiedCount = 0, errorCount = 1\<rparr>
   \<and> settings (remote (snd (processAwsFunctionsInBatches example_plugin [(''hello'', 0)]
        (example_world ''svc'' ''dev'' [(''hello'', 0)] []
           [(''svc-dev-hello'', 5)] [(''svc-dev-hello'', ''Rate exceeded'')])))) ''svc-dev-hello'' = Some 5
   \<and> fst (processAwsFunctionsInBatches example_plugin [(''hello'', 0)]
        (snd (processAwsFunctionsInBatches example_plugin [(''hello'', 0)]
          (example_world ''svc'' ''dev'' [(''hello'', 0)] []
             [(''svc-dev-hello'', 5)] [(''svc-dev-hello'', ''Rate exceeded'')])))) =
       Inr \<lparr>modifiedCount = 1, errorCount = 0\<rparr>"
proof -
  have "remote_api_contract (provider example_plugin) has_setting"
    using lambda_sim_contract by (simp add: example_plugin_def)
  then show ?thesis by (simp add: batch_eval)
qed

theorem C3_second_run_bound_witness:
  "remote_api_contract (provider example_plugin) has_setting
   \<and> fst (processAwsFunctionsInBatches example_plugin
        [(''hello'', 0), (''warmUpPlugin'', 1), (''world'', 2)]
        (example_world ''svc'' ''dev'' [] []
           [(''svc-dev-hello'', 5), (''svc-dev-warmUpPlugin'', 1), (''svc-dev-world'', 0)] [])) =
       Inr \<lparr>modifiedCount = 2, errorCount = 0\<rparr>
   \<and> fst (processAwsFunctionsInBatches example_plugin
        [(''hello'', 0), (''warmUpPlugin'', 1), (''world'', 2)]
        (snd (processAwsFunctionsInBatches example_plugin
          [(''hello'', 0), (''warmUpPlugin'', 1), (''world'', 2)]
          (example_world ''svc'' ''dev'' [] []
             [(''svc-dev-hello'', 5), (''svc-dev-warmUpPlugin'', 1), (''svc-dev-world'', 0)] [])))) =
       Inr \<lparr>modifiedCount = 0, errorCount = 0\<rparr>"
proof -
  let ?es = "[(''hello'', 0), (''warmUpPlugin'', 1), (''world'', 2)] :: (string \<times> ref) list"
  let ?w = "example_world ''svc'' ''dev'' [] []
      [(''svc-dev-hello'', 5), (''svc-dev-warmUpPlugin'', 1), (''svc-dev-world'', 0)] []"
  let ?run1 = "processAwsFunctionsInBatches example_plugin ?es ?w"
  let ?run2 = "processAwsFunctionsInBatches example_plugin ?es (snd ?run1)"
  have c: "remote_api_contract (provider example_plugin) has_setting"
    using lambda_sim_contract by (simp add: example_plugin_def)
  have 1: "fst ?run1 = Inr \<lparr>modifiedCount = 2, errorCount = 0\<rparr>"
    by (simp add: batch_eval)
  then have r1: "?run1 = (Inr \<lparr>modifiedCount = 2, errorCount = 0\<rparr>, snd ?run1)"
    by (simp add: prod_eq_iff)
  obtain second where 2: "fst ?run2 = Inr second" and e: "errorCount second = 0"
    by (simp add: batch_eval)
  then have r2: "?run2 = (Inr second, snd ?run2)"
    by (simp add: prod_eq_iff)
  from C3_second_run_bound [OF c r1 r2] have "modifiedCount second = 0" by simp
  with e have "second = \<lparr>modifiedCount = 0, errorCount = 0\<rparr>" by simp
  with c 1 2 show ?thesis by simp
qed




text \<open>
  C5. A logical name whose resolved identifier contains the warm-up marker is skipped,
  whatever the provider and the remote state are: the result counts neither a
  modification nor an error, no request is sent and the remote state is as before, in the
  bulk form and in the single form; in a batch its task settles so when it starts; and
  no request of a bulk run names that identifier.
\<close>

theorem C5_warmup_function_untouched:
  assumes "sublist WARMUP_FUNCTION_IDENTIFIER (getFunctionName w functionName)"
  shows "fst (processAwsFunction this functionName w) = Inr \<lparr>modifiedCount = 0, errorCount = 0\<rparr>
     \<and> calls (snd (processAwsFunction this functionName w)) = calls w
     \<and> remote (snd (processAwsFunction this functionName w)) = remote w
     \<and> processSingleAwsFunction this functionName w = processAwsFunction this functionName w
     \<and> (\<exists>cs. calls (snd (processAwsFunctionsInBatches this entries w)) = calls w @ cs
           \<and> (\<forall>c\<in>set cs. snd (snd c) \<noteq> getFunctionName w functionName))
     \<and> processAwsFunction_start this functionName w =
         (Settled (Inr \<lparr>modifiedCount = 0, errorCount = 0\<rparr>),
          log_info (''Skipping warmUp function: '' @ getFunctionName w functionName) w)"
proof -
  from assms have skip: "shouldSkipFunction (getFunctionName w functionName)"
    by (simp add: shouldSkipFunction_sublist)
  obtain res w' where r: "processAwsFunctionsInBatches this entries w = (res, w')"
    by (cases "processAwsFunctionsInBatches this entries w")
  then have "processAwsFunctionsInBatches_loop this entries 0 0 0 w = (res, w')"
    by (simp add: processAwsFunctionsInBatches_def)
  from loop_frame [OF this] obtain cs where
    cs: "calls w' = calls w @ cs" "\<forall>c\<in>set cs. \<not> shouldSkipFunction (snd (snd c))"
    by auto
  from cs(2) skip have "\<forall>c\<in>set cs. snd (snd c) \<noteq> getFunctionName w functionName" by auto
  with cs(1) r
  have "\<exists>cs. calls (snd (processAwsFunctionsInBatches this entries w)) = calls w @ cs
           \<and> (\<forall>c\<in>set cs. snd (snd c) \<noteq> getFunctionName w functionName)"
    by auto
  moreover have "processAwsFunction_start this functionName w =
         (Settled (Inr \<lparr>modifiedCount = 0, errorCount = 0\<rparr>),
          log_info (''Skipping warmUp function: '' @ getFunctionName w functionName) w)"
    using skip by (simp add: processAwsFunction_start_def)
  ultimately show ?thesis
    by (simp add: processAwsFunction_skip [OF skip] processSingleAwsFunction_eq)
qed

theorem C5_warmup_function_untouched_witness:
  "sublist WARMUP_FUNCTION_IDENTIFIER ''svc-dev-warmUpPlugin''
   \<and> fst (processAwsFunction example_plugin ''warmUpPlugin''
        (example_world ''svc'' ''dev'' [] [] [(''svc-dev-warmUpPlugin'', 7)] [])) =
       Inr \<lparr>modifiedCount = 0, errorCount = 0\<rparr>
   \<and> calls (snd (processAwsFunction example_plugin ''warmUpPlugin''
        (example_world ''svc'' ''dev'' [] [] [(''svc-dev-warmUpPlugin'', 7)] []))) = []
   \<and> settings (remote (snd (processAwsFunction example_plugin ''warmUpPlugin''
        (example_world ''svc'' ''dev'' [] [] [(''svc-dev-warmUpPlugin'', 7)] []))))
        ''svc-dev-warmUpPlugin'' = Some 7"
proof -
  have n: "getFunctionName (example_world ''svc'' ''dev'' [] [] [(''svc-dev-warmUpPlugin'', 7)] [])
      ''warmUpPlugin'' = ''svc-dev-warmUpPlugin''"
    by (simp add: getFunctionName_def example_world_def)
  have s: "sublist WARMUP_FUNCTION_IDENTIFIER ''svc-dev-warmUpPlugin''"
    unfolding str_includes_sublist [symmetric] WARMUP_FUNCTION_IDENTIFIER_def by simp
  from C5_warmup_function_untouched
    [of "example_world ''svc'' ''dev'' [] [] [(''svc-dev-warmUpPlugin'', 7)] []" "''warmUpPlugin''"
        example_plugin "[]", unfolded n, OF s] s
  show ?thesis by (simp add: example_world_def)
qed

text \<open>
  C6. In a bulk run that resolves, every entry has one result, which is a modification,
  an error, or neither (skipped or already clean). \<open>modifiedCount\<close> is the number of the
  first, \<open>errorCount\<close> of the second, and together with the number of the third they add
  up to the number of entries. (The result itself has no field for the third.) The run
  resolves when the provider never rejects with \<^verbatim>\<open>undefined\<close> or \<^verbatim>\<open>null\<close>.
\<close>

theorem C6_result_counts_partition:
  "(\<forall>agg w'.
      processAwsFunctionsInBatches this entries w = (Inr agg, w') \<longrightarrow>
      (\<exists>results.
         all_batchResults this entries 0 w = (Inr results, w')
         \<and> length results = length entries
         \<and> (\<forall>r\<in>set results. r = \<lparr>modifiedCount = 1, errorCount = 0\<rparr>
                \<or> r = \<lparr>modifiedCount = 0, errorCount = 1\<rparr>
                \<or> r = \<lparr>modifiedCount = 0, errorCount = 0\<rparr>)
         \<and> modifiedCount agg =
              length (filter (\<lambda>r. r = \<lparr>modifiedCount = 1, errorCount = 0\<rparr>) results)
         \<and> errorCount agg =
              length (filter (\<lambda>r. r = \<lparr>modifiedCount = 0, errorCount = 1\<rparr>) results)
         \<and> modifiedCount agg + errorCount agg
              + length (filter (\<lambda>r. r = \<lparr>modifiedCount = 0, errorCount = 0\<rparr>) results)
            = length entries))
   \<and> (rejects_with_messages (provider this) \<longrightarrow>
        (\<exists>agg w'. processAwsFunctionsInBatches this entries w = (Inr agg, w')))"
proof (intro conjI allI impI)
  fix agg w'
  assume "processAwsFunctionsInBatches this entries w = (Inr agg, w')"
  then obtain rs where p: "all_batchResults this entries 0 w = (Inr rs, w')"
    and a: "agg = \<lparr>modifiedCount = sum_list (map modifiedCount rs),
                   errorCount = sum_list (map errorCount rs)\<rparr>"
    by (rule run_resolved)
  from all_batchResults_results [OF p] have l: "length rs = length entries"
    and k: "\<forall>r\<in>set rs. result_ok r" by simp_all
  note f = counts_as_filters [OF k]
  have "modifiedCount agg =
           length (filter (\<lambda>r. r = \<lparr>modifiedCount = 1, errorCount = 0\<rparr>) rs)"
    and "errorCount agg =
           length (filter (\<lambda>r. r = \<lparr>modifiedCount = 0, errorCount = 1\<rparr>) rs)"
    and "modifiedCount agg + errorCount agg
           + length (filter (\<lambda>r. r = \<lparr>modifiedCount = 0, errorCount = 0\<rparr>) rs)
         = length entries"
    using f l by (simp_all add: a)
  moreover from k have "\<forall>r\<in>set rs. r = \<lparr>modifiedCount = 1, errorCount = 0\<rparr>
                \<or> r = \<lparr>modifiedCount = 0, errorCount = 1\<rparr>
                \<or> r = \<lparr>modifiedCount = 0, errorCount = 0\<rparr>"
    by (simp add: result_ok_def)
  ultimately show "\<exists>results.
         all_batchResults this entries 0 w = (Inr results, w')
         \<and> length results = length entries
         \<and> (\<forall>r\<in>set results. r = \<lparr>modifiedCount = 1, errorCount = 0\<rparr>
                \<or> r = \<lparr>modifiedCount = 0, errorCount = 1\<rparr>
                \<or> r = \<lparr>modifiedCount = 0, errorCount = 0\<rparr>)
         \<and> modifiedCount agg =
              length (filter (\<lambda>r. r = \<lparr>modifiedCount = 1, errorCount = 0\<rparr>) results)
         \<and> errorCount agg =
              length (filter (\<lambda>r. r = \<lparr>modifiedCount = 0, errorCount = 1\<rparr>) results)
         \<and> modifiedCount agg + errorCount agg
              + length (filter (\<lambda>r. r = \<lparr>modifiedCount = 0, errorCount = 0\<rparr>) results)
            = length entries"
    using p l by blast
next
  assume "rejects_with_messages (provider this)"
  from all_batchResults_total [OF this, of entries 0 w]
  show "\<exists>agg w'. processAwsFunctionsInBatches this entries w = (Inr agg, w')"
    by (auto simp: run_results)
qed

theorem C6_result_counts_partition_witness:
  "rejects_with_messages (provider example_plugin)
   \<and> fst (all_batchResults example_plugin example_entries7 0
      (example_world ''svc'' ''dev'' example_entries7 []
         [(''svc-dev-f1'', 5), (''svc-dev-f6'', 0)] [(''svc-dev-f3'', ''Rate exceeded'')])) =
     Inr [\<lparr>modifiedCount = 1, errorCount = 0\<rparr>, \<lparr>modifiedCount = 0, errorCount = 0\<rparr>,
          \<lparr>modifiedCount = 0, errorCount = 1\<rparr>, \<lparr>modifiedCount = 0, errorCount = 0\<rparr>,
          \<lparr>modifiedCount = 0, errorCount = 0\<rparr>, \<lparr>modifiedCount = 1, errorCount = 0\<rparr>,
          \<lparr>modifiedCount = 0, errorCount = 0\<rparr>]
   \<and> fst (processAwsFunctionsInBatches example_plugin example_entries7
      (example_world ''svc'' ''dev'' example_entries7 []
         [(''svc-dev-f1'', 5), (''svc-dev-f6'', 0)] [(''svc-dev-f3'', ''Rate exceeded'')])) =
     Inr \<lparr>modifiedCount = 2, errorCount = 1\<rparr>
   \<and> (2::nat) + 1 + 4 = length example_entries7"
proof -
  let ?w = "example_world ''svc'' ''dev'' example_entries7 []
         [(''svc-dev-f1'', 5), (''svc-dev-f6'', 0)] [(''svc-dev-f3'', ''Rate exceeded'')]"
  let ?rs = "[\<lparr>modifiedCount = 1, errorCount = 0\<rparr>, \<lparr>modifiedCount = 0, errorCount = 0\<rparr>,
          \<lparr>modifiedCount = 0, errorCount = 1\<rparr>, \<lparr>modifiedCount = 0, errorCount = 0\<rparr>,
          \<lparr>modifiedCount = 0, errorCount = 0\<rparr>, \<lparr>modifiedCount = 1, errorCount = 0\<rparr>,
          \<lparr>modifiedCount = 0, errorCount = 0\<rparr>]"
  have h: "rejects_with_messages (provider example_plugin)"
    using lambda_sim_rejects by (simp add: example_plugin_def)
  have e: "fst (all_batchResults example_plugin example_entries7 0 ?w) = Inr ?rs"
    by (simp add: batch_eval all_batchResults.simps)
  note t = C6_result_counts_partition [of example_plugin example_entries7 ?w]
  from t [THEN conjunct2] h obtain agg w' where
    b: "processAwsFunctionsInBatches example_plugin example_entries7 ?w = (Inr agg, w')"
    by blast
  from t [THEN conjunct1] b obtain results where
    p: "all_batchResults example_plugin example_entries7 0 ?w = (Inr results, w')"
    and m: "modifiedCount agg =
           length (filter (\<lambda>r. r = \<lparr>modifiedCount = 1, errorCount = 0\<rparr>) results)"
    and r: "errorCount agg =
           length (filter (\<lambda>r. r = \<lparr>modifiedCount = 0, errorCount = 1\<rparr>) results)"
    and t: "modifiedCount agg + errorCount agg
           + length (filter (\<lambda>r. r = \<lparr>modifiedCount = 0, errorCount = 0\<rparr>) results)
         = length example_entries7"
    by blast
  from e p have rs: "results = ?rs" by simp
  from m r have "agg = \<lparr>modifiedCount = 2, errorCount = 1\<rparr>" unfolding rs by simp
  with h b t e show ?thesis unfolding rs by simp
qed

text \<open>
  C7. With no function name in the options (absent or the empty string), the hook of
  the single form sends no request, leaves the remote state alone, logs exactly one error
  (between the start and the finish lines of the timing wrapper) and resolves.
\<close>

theorem C7_no_function_specified:
  assumes "options_function this = None \<or> options_function this = Some []"
  shows "fst (removeReservedConcurrencyFromAwsForFunction this elapsed w) = Inr ()
     \<and> calls (snd (removeReservedConcurrencyFromAwsForFunction this elapsed w)) = calls w
     \<and> remote (snd (removeReservedConcurrencyFromAwsForFunction this elapsed w)) = remote w
     \<and> logged (snd (removeReservedConcurrencyFromAwsForFunction this elapsed w)) =
         logged w @
         [(Info, ''Starting: Remove reserved concurrency from AWS for single function''),
          (Error, ''No function specified''),
          (Info, ''Finished: Remove reserved concurrency from AWS for single function in ''
             @ elapsed)]
     \<and> length (filter (\<lambda>e. fst e = Error)
           (logged (snd (removeReservedConcurrencyFromAwsForFunction this elapsed w)))) =
         length (filter (\<lambda>e. fst e = Error) (logged w)) + 1
     \<and> run_hook this RemoveReservedConcurrencyFromAwsForFunction elapsed w =
         removeReservedConcurrencyFromAwsForFunction this elapsed w"
  using assms
  by (auto simp: removeReservedConcurrencyFromAwsForFunction_def measureExecutionTime_def
      validateFunctionName_def run_hook_def)

theorem C7_no_function_specified_witness:
  "options_function example_plugin = None
   \<and> removeReservedConcurrencyFromAwsForFunction example_plugin ''0s 1.5ms''
        (example_world ''svc'' ''dev'' [] [] [(''svc-dev-hello'', 5)] []) =
      (Inr (),
       (example_world ''svc'' ''dev'' [] [] [(''svc-dev-hello'', 5)] [])
         \<lparr>logged :=
            [(Info, ''Starting: Remove reserved concurrency from AWS for single function''),
             (Error, ''No function specified''),
             (Info, ''Finished: Remove reserved concurrency from AWS for single function in 0s 1.5ms'')]\<rparr>)"
proof -
  have n: "options_function example_plugin = None \<or> options_function example_plugin = Some []"
    by (simp add: example_plugin_def)
  from C7_no_function_specified [OF n, of "''0s 1.5ms''"
      "example_world ''svc'' ''dev'' [] [] [(''svc-dev-hello'', 5)] []"]
  show ?thesis
    by (simp add: example_plugin_def removeReservedConcurrencyFromAwsForFunction_def
        measureExecutionTime_def validateFunctionName_def log_info_def log_error_def
        example_world_def)
qed

text \<open>
  C8. For a stage that is not development-like, the constructor of either file registers
  no hook, so that no extension point names an operation; it logs one line and changes
  nothing else. The hooks are a value fixed by the constructor: nothing later classifies
  the stage again.
\<close>

theorem C8_no_hooks_outside_development:
  assumes "\<not> isDevelopmentStage (stage (serverless w))"
  shows "hooks (fst (constructor prov opt_function w)) = []
     \<and> (\<forall>name. map_of (hooks (fst (constructor prov opt_function w))) name = None)
     \<and> snd (constructor prov opt_function w) =
         log_info (''Production stage detected ('' @ stage (serverless w)
           @ ''). Plugin will not modify any concurrency settings.'') w
     \<and> hooks (fst (constructor_index prov w)) = []
     \<and> snd (constructor_index prov w) = snd (constructor prov opt_function w)"
proof -
  from assms have "\<not> isDevelopmentStage_index (stage (serverless w))"
    by (simp add: isDevelopmentStage_def isDevelopmentStage_index_def Let_def member_DEV_STAGES')
  with assms show ?thesis
    by (simp add: constructor_def constructor_index_def Let_def)
qed

theorem C8_no_hooks_outside_development_witness:
  "\<not> isDevelopmentStage ''production''
   \<and> hooks (fst (constructor lambda_sim None
        (example_world ''svc'' ''production'' example_functions example_objects [] []))) = []
   \<and> map fst (hooks (fst (constructor lambda_sim None
        (example_world ''svc'' ''Feature-42'' example_functions example_objects [] [])))) =
       [''before:deploy:deploy'', ''before:deploy:function:deploy'',
        ''before:package:createDeploymentArtifacts'', ''before:aws:deploy:deploy:createStack'',
        ''after:aws:deploy:deploy:updateStack'', ''after:deploy:function:deploy'']"
proof -
  have s: "stage (serverless (example_world ''svc'' ''production'' example_functions
      example_objects [] [])) = ''production''"
    by (simp add: example_world_def)
  have n: "\<not> isDevelopmentStage ''production''"
    by (simp add: isDevelopmentStage_def Let_def member_DEV_STAGES'
        toLowerCase_def toLowerCaseChar_def)
  from C8_no_hooks_outside_development
    [of "example_world ''svc'' ''production'' example_functions example_objects [] []"
        lambda_sim None,
     unfolded s, OF n] n
  show ?thesis
    by (simp add: constructor_def Let_def isDevelopmentStage_def member_DEV_STAGES'
        toLowerCase_def toLowerCaseChar_def example_world_def)
qed

text \<open>
  C9. The descriptor pass leaves the descriptor's mapping of names to definitions as it
  was, and in every definition every property other than \<^verbatim>\<open>reservedConcurrency\<close> reads
  as before; a definition that no entry holds is not changed at all; the pass sends no
  request. The same holds of the pass of the earlier file and of the hook of either file,
  which change the definitions as the pass does, and neither the remote state nor the
  requests.
\<close>

theorem C9_descriptor_frame:
  assumes "processServerlessConfigFunctions fns w = (result, w')"
  shows "serverless w' = serverless w
     \<and> (\<forall>config k. k \<noteq> ''reservedConcurrency'' \<longrightarrow> objects w' config k = objects w config k)
     \<and> (\<forall>config. config \<notin> snd ` set fns \<longrightarrow> objects w' config = objects w config)
     \<and> remote w' = remote w \<and> calls w' = calls w
     \<and> objects (snd (removeReservedConcurrencyFromSLS_index_forEach fns 0 w)) = objects w'
     \<and> serverless (snd (removeReservedConcurrencyFromSLS_index_forEach fns 0 w)) = serverless w
     \<and> serverless (snd (removeReservedConcurrencyFromSLS this elapsed w)) = serverless w
     \<and> serverless (snd (removeReservedConcurrencyFromSLS_index this elapsed w)) = serverless w
     \<and> (\<forall>config k. k \<noteq> ''reservedConcurrency'' \<longrightarrow>
           objects (snd (removeReservedConcurrencyFromSLS this elapsed w)) config k =
             objects w config k
           \<and> objects (snd (removeReservedConcurrencyFromSLS_index this elapsed w)) config k =
             objects w config k)
     \<and> (service_functions (serverless w) = Some fns \<longrightarrow>
          objects (snd (removeReservedConcurrencyFromSLS this elapsed w)) = objects w'
          \<and> objects (snd (removeReservedConcurrencyFromSLS_index this elapsed w)) = objects w')
     \<and> (service_functions (serverless w) = None \<longrightarrow>
          objects (snd (removeReservedConcurrencyFromSLS this elapsed w)) = objects w
          \<and> objects (snd (removeReservedConcurrencyFromSLS_index this elapsed w)) = objects w)
     \<and> remote (snd (removeReservedConcurrencyFromSLS this elapsed w)) = remote w
     \<and> calls (snd (removeReservedConcurrencyFromSLS this elapsed w)) = calls w
     \<and> remote (snd (removeReservedConcurrencyFromSLS_index this elapsed w)) = remote w
     \<and> calls (snd (removeReservedConcurrencyFromSLS_index this elapsed w)) = calls w"
proof -
  note e = processServerlessConfigFunctions_effect [OF assms]
  let ?fns = "case service_functions (serverless w) of None \<Rightarrow> [] | Some fns \<Rightarrow> fns"
  obtain result0 w0 where p0: "processServerlessConfigFunctions ?fns w = (result0, w0)"
    by (cases "processServerlessConfigFunctions ?fns w")
  note e0 = processServerlessConfigFunctions_effect [OF p0]
  note h = removeReservedConcurrencyFromSLS_eq [of this elapsed w]
  note hi = removeReservedConcurrencyFromSLS_index_eq [of this elapsed w]
  obtain mc w'' where i: "removeReservedConcurrencyFromSLS_index_forEach fns 0 w = (mc, w'')"
    by (cases "removeReservedConcurrencyFromSLS_index_forEach fns 0 w")
  note ei = index_forEach_effect [OF i]
  have 2: "\<forall>config k. k \<noteq> ''reservedConcurrency'' \<longrightarrow> objects w' config k = objects w config k"
    by (simp add: e(1))
  have 3: "\<forall>config. config \<notin> snd ` set fns \<longrightarrow> objects w' config = objects w config"
    by (simp add: e(1))
  have 6: "objects (snd (removeReservedConcurrencyFromSLS_index_forEach fns 0 w)) = objects w'"
    using ei e(1) by (simp add: i)
  have 7: "serverless (snd (removeReservedConcurrencyFromSLS_index_forEach fns 0 w)) =
      serverless w"
    using ei by (simp add: i)
  have 10: "\<forall>config k. k \<noteq> ''reservedConcurrency'' \<longrightarrow>
           objects (snd (removeReservedConcurrencyFromSLS this elapsed w)) config k =
             objects w config k
           \<and> objects (snd (removeReservedConcurrencyFromSLS_index this elapsed w)) config k =
             objects w config k"
    using h hi by (simp add: p0 e0(1))
  have 11: "service_functions (serverless w) = Some fns \<longrightarrow>
          objects (snd (removeReservedConcurrencyFromSLS this elapsed w)) = objects w'
          \<and> objects (snd (removeReservedConcurrencyFromSLS_index this elapsed w)) = objects w'"
    using h hi assms by auto
  have 12: "service_functions (serverless w) = None \<longrightarrow>
          objects (snd (removeReservedConcurrencyFromSLS this elapsed w)) = objects w
          \<and> objects (snd (removeReservedConcurrencyFromSLS_index this elapsed w)) = objects w"
    using h hi by (auto simp: processServerlessConfigFunctions_def)
  from e(4) 2 3 e(5) e(6) 6 7 h hi 10 11 12 show ?thesis by (intro conjI) simp_all
qed

text \<open>
  Two names that hold one definition, with a timeout beside the reservation, and a third
  definition that no name holds: after the pass the mapping is the same, the timeout is
  there, the reservation is gone, and the third definition is as it was.
\<close>

theorem C9_descriptor_frame_witness:
  "service_functions (serverless (snd (processServerlessConfigFunctions
        [(''a'', 0), (''b'', 0)]
        (example_world ''svc'' ''dev'' [(''a'', 0), (''b'', 0)]
           [(0, [''reservedConcurrency'' \<mapsto> 5, ''timeout'' \<mapsto> 30]),
            (7, [''reservedConcurrency'' \<mapsto> 1])] [] [])))) = Some [(''a'', 0), (''b'', 0)]
   \<and> objects (snd (processServerlessConfigFunctions [(''a'', 0), (''b'', 0)]
        (example_world ''svc'' ''dev'' [(''a'', 0), (''b'', 0)]
           [(0, [''reservedConcurrency'' \<mapsto> 5, ''timeout'' \<mapsto> 30]),
            (7, [''reservedConcurrency'' \<mapsto> 1])] [] []))) 0 ''timeout'' = Some 30
   \<and> objects (snd (processServerlessConfigFunctions [(''a'', 0), (''b'', 0)]
        (example_world ''svc'' ''dev'' [(''a'', 0), (''b'', 0)]
           [(0, [''reservedConcurrency'' \<mapsto> 5, ''timeout'' \<mapsto> 30]),
            (7, [''reservedConcurrency'' \<mapsto> 1])] [] []))) 0 ''reservedConcurrency'' = None
   \<and> objects (snd (processServerlessConfigFunctions [(''a'', 0), (''b'', 0)]
        (example_world ''svc'' ''dev'' [(''a'', 0), (''b'', 0)]
           [(0, [''reservedConcurrency'' \<mapsto> 5, ''timeout'' \<mapsto> 30]),
            (7, [''reservedConcurrency'' \<mapsto> 1])] [] []))) 7 ''reservedConcurrency'' = Some 1"
proof -
  let ?fns = "[(''a'', 0), (''b'', 0)] :: (string \<times> ref) list"
  let ?w = "example_world ''svc'' ''dev'' ?fns
           [(0, [''reservedConcurrency'' \<mapsto> 5, ''timeout'' \<mapsto> 30]),
            (7, [''reservedConcurrency'' \<mapsto> 1])] [] []"
  let ?p = "processServerlessConfigFunctions ?fns ?w"
  have "?p = (fst ?p, snd ?p)" by simp
  note t = C9_descriptor_frame [OF this, of example_plugin "''0s 1ms''"]
  from t [THEN conjunct1] have 1: "service_functions (serverless (snd ?p)) = Some ?fns"
    by (simp add: example_world_def)
  from t [THEN conjunct2, THEN conjunct1] have 2: "objects (snd ?p) 0 ''timeout'' = Some 30"
    by (simp add: example_world_def)
  from t [THEN conjunct2, THEN conjunct2, THEN conjunct1]
  have 4: "objects (snd ?p) 7 ''reservedConcurrency'' = Some 1"
    by (simp add: example_world_def)
  have 3: "objects (snd ?p) 0 ''reservedConcurrency'' = None"
    by (simp add: sls_eval)
  from 1 2 3 4 show ?thesis by (intro conjI)
qed

text \<open>
  C10. The marker is looked for in the resolved identifier: when the service name or
  the stage contains it, every logical name is skipped, and the bulk run, as a function
  and as a hook, sends no request, leaves the remote state alone and counts nothing.
\<close>

theorem C10_marker_in_service_or_stage:
  assumes "sublist WARMUP_FUNCTION_IDENTIFIER (service (serverless w))
     \<or> sublist WARMUP_FUNCTION_IDENTIFIER (stage (serverless w))"
  shows "(\<forall>functionName. shouldSkipFunction (getFunctionName w functionName))
     \<and> fst (processAwsFunctionsInBatches this entries w) =
         Inr \<lparr>modifiedCount = 0, errorCount = 0\<rparr>
     \<and> calls (snd (processAwsFunctionsInBatches this entries w)) = calls w
     \<and> remote (snd (processAwsFunctionsInBatches this entries w)) = remote w
     \<and> fst (removeReservedConcurrencyFromAws this elapsed w) = Inr ()
     \<and> calls (snd (removeReservedConcurrencyFromAws this elapsed w)) = calls w
     \<and> remote (snd (removeReservedConcurrencyFromAws this elapsed w)) = remote w"
proof -
  have skip: "\<forall>functionName. shouldSkipFunction (getFunctionName w functionName)"
    using sublist_getFunctionName [OF assms] by (simp add: shouldSkipFunction_sublist)
  have run: "fst (processAwsFunctionsInBatches this es v) =
         Inr \<lparr>modifiedCount = 0, errorCount = 0\<rparr>
     \<and> calls (snd (processAwsFunctionsInBatches this es v)) = calls v
     \<and> remote (snd (processAwsFunctionsInBatches this es v)) = remote v"
    if "\<forall>n. shouldSkipFunction (getFunctionName v n)" for es v
    using loop_quiet [OF that, of this es 0 0 0]
    by (auto simp: processAwsFunctionsInBatches_def)
  let ?w0 = "log_info ''Starting: Remove reserved concurrency from AWS for all functions'' w"
  let ?es = "case service_functions (serverless ?w0) of None \<Rightarrow> [] | Some fns \<Rightarrow> fns"
  from skip have "\<forall>n. shouldSkipFunction (getFunctionName ?w0 n)" by simp
  note h = run [OF this, of ?es]
  obtain r v where rv: "processAwsFunctionsInBatches this ?es ?w0 = (r, v)"
    by (cases "processAwsFunctionsInBatches this ?es ?w0")
  with h have "r = Inr \<lparr>modifiedCount = 0, errorCount = 0\<rparr>" "calls v = calls w"
    "remote v = remote w"
    by simp_all
  with rv have hook: "fst (removeReservedConcurrencyFromAws this elapsed w) = Inr ()
     \<and> calls (snd (removeReservedConcurrencyFromAws this elapsed w)) = calls w
     \<and> remote (snd (removeReservedConcurrencyFromAws this elapsed w)) = remote w"
    by (simp add: removeReservedConcurrencyFromAws_def measureExecutionTime_def)
  from skip run [OF skip, of entries] hook show ?thesis by blast
qed

theorem C10_marker_in_service_or_stage_witness:
  "sublist WARMUP_FUNCTION_IDENTIFIER ''feature-warmUp''
   \<and> isDevelopmentStage ''feature-warmUp''
   \<and> \<not> sublist WARMUP_FUNCTION_IDENTIFIER ''hello''
   \<and> fst (processAwsFunctionsInBatches example_plugin [(''hello'', 0)]
        (example_world ''svc'' ''feature-warmUp'' [(''hello'', 0)] []
           [(''svc-feature-warmUp-hello'', 5)] [])) =
       Inr \<lparr>modifiedCount = 0, errorCount = 0\<rparr>
   \<and> calls (snd (processAwsFunctionsInBatches example_plugin [(''hello'', 0)]
        (example_world ''svc'' ''feature-warmUp'' [(''hello'', 0)] []
           [(''svc-feature-warmUp-hello'', 5)] []))) = []
   \<and> settings (remote (snd (removeReservedConcurrencyFromAws example_plugin ''0s 2ms''
        (example_world ''svc'' ''feature-warmUp'' [(''hello'', 0)] []
           [(''svc-feature-warmUp-hello'', 5)] [])))) ''svc-feature-warmUp-hello'' = Some 5"
proof -
  let ?w = "example_world ''svc'' ''feature-warmUp'' [(''hello'', 0)] []
           [(''svc-feature-warmUp-hello'', 5)] []"
  have s: "sublist WARMUP_FUNCTION_IDENTIFIER ''feature-warmUp''"
    "\<not> sublist WARMUP_FUNCTION_IDENTIFIER ''hello''"
    unfolding str_includes_sublist [symmetric] WARMUP_FUNCTION_IDENTIFIER_def by simp_all
  have d: "isDevelopmentStage ''feature-warmUp''"
    by (simp add: isDevelopmentStage_def Let_def toLowerCase_def toLowerCaseChar_def)
  have "sublist WARMUP_FUNCTION_IDENTIFIER (service (serverless ?w))
     \<or> sublist WARMUP_FUNCTION_IDENTIFIER (stage (serverless ?w))"
    using s by (simp add: example_world_def)
  from C10_marker_in_service_or_stage [OF this, of example_plugin "[(''hello'', 0)]" "''0s 2ms''"]
    s d
  show ?thesis by (simp add: example_world_def)
qed

end
